theory Spec2Isabelle
  imports Main "HOL-Library.Sublist" "HOL-Library.Char_ord" "HOL-Library.List_Lexorder"
begin

section \<open>Python strings\<close>

text \<open>
  A Python \<open>str\<close> is modelled as an Isabelle \<open>string\<close> holding its UTF-8 bytes, a
  \<open>bytes\<close> object as the list of its bytes. Substring search, prefixes, suffixes,
  splitting at an ASCII separator and the ordering of \<open>sorted\<close> agree on the two
  readings. The operations that consult Unicode tables (\<open>lower\<close>, \<open>isspace\<close>,
  \<open>isalpha\<close>, the classes \<open>\d\<close> and \<open>\w\<close> of \<open>re\<close>) are modelled on ASCII and leave
  every other byte alone: the model is one of ASCII markup with opaque non-ASCII text.
\<close>

type_synonym bytes = string

datatype error = ValueError | OverflowError | IndexError

text \<open>An uncaught exception is \<open>Inl\<close>; \<open>then_do\<close> runs the rest after a call that may raise.\<close>

definition then_do :: "error + 'a \<Rightarrow> ('a \<Rightarrow> error + 'b) \<Rightarrow> error + 'b" where
  "then_do m f = (case m of Inl e \<Rightarrow> Inl e | Inr x \<Rightarrow> f x)"

definition ascii_upper :: string where
  "ascii_upper = ''ABCDEFGHIJKLMNOPQRSTUVWXYZ''"

definition ascii_lower :: string where
  "ascii_lower = ''abcdefghijklmnopqrstuvwxyz''"

definition digits :: string where
  "digits = ''0123456789''"

definition lower_char :: "char \<Rightarrow> char" where
  "lower_char c = (case map_of (zip ascii_upper ascii_lower) c of Some d \<Rightarrow> d | None \<Rightarrow> c)"

definition lower :: "string \<Rightarrow> string" where
  "lower s = map lower_char s"

definition isspace :: "char \<Rightarrow> bool" where
  "isspace c = (c \<in> set [CHR 0x09, CHR 0x0A, CHR 0x0B, CHR 0x0C, CHR 0x0D,
                          CHR 0x1C, CHR 0x1D, CHR 0x1E, CHR 0x1F, CHR '' ''])"

definition isdigit :: "char \<Rightarrow> bool" where
  "isdigit c = (c \<in> set digits)"

definition isalpha :: "char \<Rightarrow> bool" where
  "isalpha c = (c \<in> set (ascii_upper @ ascii_lower))"

text \<open>A word character of \<open>re\<close> (\<open>\w\<close>), which decides where \<open>\b\<close> holds.\<close>

definition isword :: "char \<Rightarrow> bool" where
  "isword c = (isalpha c \<or> isdigit c \<or> c = CHR ''_'')"

definition lstrip_chars :: "(char \<Rightarrow> bool) \<Rightarrow> string \<Rightarrow> string" where
  "lstrip_chars P s = dropWhile P s"

definition strip_chars :: "(char \<Rightarrow> bool) \<Rightarrow> string \<Rightarrow> string" where
  "strip_chars P s = rev (dropWhile P (rev (dropWhile P s)))"

definition strip :: "string \<Rightarrow> string" where
  "strip s = strip_chars isspace s"

text \<open>\<open>needle in hay\<close>.\<close>

fun str_in :: "string \<Rightarrow> string \<Rightarrow> bool" where
  "str_in needle [] = (needle = [])"
| "str_in needle (c # cs) = (prefix needle (c # cs) \<or> str_in needle cs)"

definition startswith :: "string \<Rightarrow> string list \<Rightarrow> bool" where
  "startswith s ps = (\<exists>p \<in> set ps. prefix p s)"

definition endswith :: "string \<Rightarrow> string list \<Rightarrow> bool" where
  "endswith s ps = (\<exists>p \<in> set ps. suffix p s)"

text \<open>\<open>s.split(c)\<close> for a one-character separator: one more piece than separators.\<close>

fun split_on :: "char \<Rightarrow> string \<Rightarrow> string list" where
  "split_on c [] = [[]]"
| "split_on c (x # xs) =
     (if x = c then [] # split_on c xs
      else (case split_on c xs of [] \<Rightarrow> [[x]] | w # ws \<Rightarrow> (x # w) # ws))"

text \<open>\<open>s.partition(c)\<close>, which is also \<open>s.split(c, 1)\<close> when \<open>c\<close> occurs: the text before the
  first \<open>c\<close>, whether there is one, and the text after it.\<close>

definition partition_at :: "char \<Rightarrow> string \<Rightarrow> string \<times> bool \<times> string" where
  "partition_at c s = (takeWhile (\<lambda>x. x \<noteq> c) s, c \<in> set s, drop 1 (dropWhile (\<lambda>x. x \<noteq> c) s))"

text \<open>\<open>s.split()\<close>: the maximal runs of characters that are not whitespace.\<close>

fun split_acc :: "string \<Rightarrow> string \<Rightarrow> string list" where
  "split_acc cur [] = (if cur = [] then [] else [rev cur])"
| "split_acc cur (c # cs) =
     (if isspace c then (if cur = [] then split_acc [] cs else rev cur # split_acc [] cs)
      else split_acc (c # cur) cs)"

definition split_ws :: "string \<Rightarrow> string list" where
  "split_ws s = split_acc [] s"

text \<open>\<open>sep.join(xs)\<close>.\<close>

fun join :: "string \<Rightarrow> string list \<Rightarrow> string" where
  "join sep [] = []"
| "join sep [x] = x"
| "join sep (x # y # ys) = x @ sep @ join sep (y # ys)"

text \<open>\<open>s.replace(old, new)\<close> for a non-empty \<open>old\<close>: leftmost occurrences, not overlapping.
  The counter is the number of characters of the current occurrence still to be passed.\<close>

fun replace_scan :: "string \<Rightarrow> string \<Rightarrow> nat \<Rightarrow> string \<Rightarrow> string" where
  "replace_scan old new k [] = []"
| "replace_scan old new k (c # cs) =
     (if 0 < k then replace_scan old new (k - 1) cs
      else if old \<noteq> [] \<and> prefix old (c # cs) then new @ replace_scan old new (length old - 1) cs
      else c # replace_scan old new 0 cs)"

definition replace :: "string \<Rightarrow> string \<Rightarrow> string \<Rightarrow> string" where
  "replace s old new = replace_scan old new 0 s"

section \<open>The markup tree\<close>

text \<open>
  The tree that \<open>BeautifulSoup(text, "html.parser")\<close> returns: a tag has a name, its
  attributes and its children; the other nodes are text. An attribute's value is a string,
  or a list of strings for the attributes the parser splits at whitespace (\<open>class\<close>,
  \<open>rel\<close>). The soup itself is a tag, the parent of the top-level nodes.
\<close>

datatype attr_value = AStr string | AList "string list"

datatype element =
    Tag (tag_name: string) (attrs: "(string \<times> attr_value) list") (contents: "element list")
  | NavigableString string

text \<open>\<open>tag.get(key)\<close>\<close>

definition get :: "element \<Rightarrow> string \<Rightarrow> attr_value option" where
  "get t key = (case t of Tag _ as _ \<Rightarrow> map_of as key | NavigableString _ \<Rightarrow> None)"

text \<open>The truth value of \<open>tag.get(key)\<close>: there is a value and it is not empty.\<close>

definition truthy :: "attr_value option \<Rightarrow> bool" where
  "truthy v = (case v of None \<Rightarrow> False | Some (AStr s) \<Rightarrow> s \<noteq> [] | Some (AList xs) \<Rightarrow> xs \<noteq> [])"

text \<open>\<open>repr\<close> of a string of printable ASCII, and \<open>str\<close> of an attribute's value: the string
  itself, and for a list the \<open>repr\<close> of its members between brackets.\<close>

definition repr_str :: "string \<Rightarrow> string" where
  "repr_str s =
     (if CHR 0x27 \<in> set s \<and> CHR 0x22 \<notin> set s
      then [CHR 0x22] @ concat (map (\<lambda>c. if c = CHR 0x5C then [c, c] else [c]) s) @ [CHR 0x22]
      else [CHR 0x27]
           @ concat (map (\<lambda>c. if c = CHR 0x5C \<or> c = CHR 0x27 then [CHR 0x5C, c] else [c]) s)
           @ [CHR 0x27])"

definition str_of :: "attr_value \<Rightarrow> string" where
  "str_of v = (case v of AStr s \<Rightarrow> s | AList xs \<Rightarrow> ''['' @ join '', '' (map repr_str xs) @ '']'')"

text \<open>\<open>" ".join(v)\<close>: the members of a list, and the characters of a string.\<close>

definition join_value :: "attr_value \<Rightarrow> string" where
  "join_value v = (case v of AList xs \<Rightarrow> join '' '' xs | AStr s \<Rightarrow> join '' '' (map (\<lambda>c. [c]) s))"

text \<open>The tags below a node in document order, each with its parent: what \<open>find_all\<close>
  walks.\<close>

fun descendants :: "element \<Rightarrow> (element \<times> element) list" where
  "descendants (NavigableString s) = []"
| "descendants (Tag n as cs) =
     concat (map (\<lambda>c. (case c of Tag _ _ _ \<Rightarrow> [(c, Tag n as cs)] | NavigableString _ \<Rightarrow> [])
                       @ descendants c) cs)"

definition find_all :: "element \<Rightarrow> string \<Rightarrow> (element \<times> element) list" where
  "find_all soup name = filter (\<lambda>(t, parent). tag_name t = name) (descendants soup)"

text \<open>\<open>tag.get_text(" ", strip=True)\<close>: the text nodes below the tag, each stripped, the
  empty ones left out, joined by a space.\<close>

fun strings :: "element \<Rightarrow> string list" where
  "strings (NavigableString s) = [s]"
| "strings (Tag n as cs) = concat (map strings cs)"

definition get_text :: "element \<Rightarrow> string" where
  "get_text t = join '' '' (filter (\<lambda>s. s \<noteq> []) (map strip (strings t)))"

section \<open>The runtime\<close>

text \<open>
  What the program takes from its platform and from the network, as parameters of the
  model:
  \<^item> \<open>set_iter xs\<close>: the order in which a \<open>for\<close> loop visits the set built from the elements
    \<open>xs\<close>, added in this order. CPython fixes neither the order of a set of strings across
    runs (string hashes are salted per process) nor its relation to the order of insertion;
    \<open>set_iter_ok\<close> says what it does fix.
  \<^item> \<open>int_float_1000 s\<close>: the floating point computation \<open>int(float(s) * 1000)\<close>, or the
    exception it raises (\<open>ValueError\<close> when \<open>s\<close> is no float or is a NaN, \<open>OverflowError\<close>
    when it is an infinity). Floating point arithmetic itself is not modelled.
  \<^item> \<open>session_get url\<close>: the response of \<open>session.get(url, timeout=...)\<close>, \<open>None\<close> when it
    raises \<open>requests.RequestException\<close>. The network answers a URL the same way each time.
  \<^item> \<open>bracketed_host_ok h\<close>: whether \<open>urllib.parse._check_bracketed_host(h)\<close> returns, that
    is whether \<open>h\<close>, the text between the square brackets of a network location, is an
    IPv6 or IPvFuture literal; \<open>netloc_nfkc_ok n\<close>: whether \<open>urllib.parse._checknetloc(n)\<close>
    returns for a network location \<open>n\<close> that is not ASCII (its NFKC form holds none of
    \<open>/ ? # @ :\<close>). Each raises \<open>ValueError\<close> otherwise.
  \<^item> \<open>sha256_hexdigest\<close>, \<open>html_parser\<close> (\<open>BeautifulSoup(text, "html.parser")\<close>),
    \<open>path_suffix\<close> and \<open>path_stem\<close> (\<open>Path(p).suffix\<close>, \<open>Path(p).stem\<close>),
    \<open>mimetypes_guess_extension\<close> and \<open>path_resolve\<close> (\<open>Path(p).resolve()\<close>).
  Writing a file and creating a directory are taken to succeed.
\<close>

record response =
  status_code :: int
  content_type :: "string option"
  content :: bytes
  text_of :: string

datatype scaled = Scaled int | Float_ValueError | Float_OverflowError

record runtime =
  bracketed_host_ok :: "string \<Rightarrow> bool"
  netloc_nfkc_ok :: "string \<Rightarrow> bool"
  set_iter :: "string list \<Rightarrow> string list"
  int_float_1000 :: "string \<Rightarrow> scaled"
  session_get :: "string \<Rightarrow> response option"
  sha256_hexdigest :: "bytes \<Rightarrow> string"
  html_parser :: "string \<Rightarrow> element"
  path_suffix :: "string \<Rightarrow> string"
  path_stem :: "string \<Rightarrow> string"
  mimetypes_guess_extension :: "string \<Rightarrow> string option"
  path_resolve :: "string \<Rightarrow> string"

definition set_iter_ok :: "runtime \<Rightarrow> bool" where
  "set_iter_ok rt = (\<forall>xs. distinct (set_iter rt xs) \<and> set (set_iter rt xs) = set xs)"

section \<open>urllib.parse\<close>

text \<open>
  The standard library's URL functions, as CPython 3.11 has them. \<open>urlsplit\<close> raises
  \<open>ValueError\<close> for a network location with an unmatched square bracket, for one whose
  bracketed host \<open>_check_bracketed_host\<close> refuses, and for one that is not ASCII and
  that \<open>_checknetloc\<close> refuses; the last two checks are the runtime's.
\<close>

record parse_result =
  scheme :: string
  netloc :: string
  path :: string
  params :: string
  query :: string
  fragment :: string

definition uses_relative :: "string list" where
  "uses_relative = ['''', ''ftp'', ''http'', ''gopher'', ''nntp'', ''imap'', ''wais'', ''file'',
     ''https'', ''shttp'', ''mms'', ''prospero'', ''rtsp'', ''rtsps'', ''rtspu'', ''sftp'',
     ''svn'', ''svn+ssh'', ''ws'', ''wss'']"

definition uses_netloc :: "string list" where
  "uses_netloc = ['''', ''ftp'', ''http'', ''gopher'', ''nntp'', ''telnet'', ''imap'', ''wais'',
     ''file'', ''mms'', ''https'', ''shttp'', ''snews'', ''prospero'', ''rtsp'', ''rtsps'',
     ''rtspu'', ''rsync'', ''svn'', ''svn+ssh'', ''sftp'', ''nfs'', ''git'', ''git+ssh'',
     ''ws'', ''wss'']"

definition uses_params :: "string list" where
  "uses_params = ['''', ''ftp'', ''hdl'', ''prospero'', ''http'', ''imap'', ''https'', ''shttp'',
     ''rtsp'', ''rtsps'', ''rtspu'', ''sip'', ''sips'', ''mms'', ''sftp'', ''tel'']"

definition isascii :: "char \<Rightarrow> bool" where
  "isascii c = ((of_char c :: nat) < 128)"

definition scheme_chars :: string where
  "scheme_chars = ascii_lower @ ascii_upper @ digits @ ''+-.''"

definition c0_control_or_space :: "char \<Rightarrow> bool" where
  "c0_control_or_space c = ((of_char c :: nat) \<le> 32)"

definition unsafe_url_byte :: "char \<Rightarrow> bool" where
  "unsafe_url_byte c = (c \<in> set [CHR 0x09, CHR 0x0D, CHR 0x0A])"

text \<open>\<open>_splitnetloc(url, 2)\<close>: the network location runs to the first of \<open>/ ? #\<close>.\<close>

definition splitnetloc :: "string \<Rightarrow> string \<times> string" where
  "splitnetloc url =
     (let rest = drop 2 url; dom = takeWhile (\<lambda>c. c \<notin> set ''/?#'') rest
      in (dom, drop (length dom) rest))"

definition split_query_fragment ::
  "string \<Rightarrow> string \<Rightarrow> string \<Rightarrow> string \<times> string \<times> string \<times> string \<times> string" where
  "split_query_fragment sch nl url =
     (case partition_at CHR ''#'' url of (u1, _, frag) \<Rightarrow>
        (case partition_at CHR ''?'' u1 of (u2, _, q) \<Rightarrow> (sch, nl, u2, q, frag)))"

text \<open>\<open>netloc.partition('[')[2].partition(']')[0]\<close>\<close>

definition bracketed_host :: "string \<Rightarrow> string" where
  "bracketed_host nl =
     takeWhile (\<lambda>c. c \<noteq> CHR '']'') (drop 1 (dropWhile (\<lambda>c. c \<noteq> CHR ''['') nl))"

text \<open>Whether the checks of \<open>urlsplit\<close> on the network location raise.\<close>

definition netloc_refused :: "runtime \<Rightarrow> string \<Rightarrow> bool" where
  "netloc_refused rt nl =
     ((CHR ''['' \<in> set nl \<and> CHR '']'' \<notin> set nl)
      \<or> (CHR '']'' \<in> set nl \<and> CHR ''['' \<notin> set nl)
      \<or> (CHR ''['' \<in> set nl \<and> CHR '']'' \<in> set nl \<and> \<not> bracketed_host_ok rt (bracketed_host nl))
      \<or> (nl \<noteq> [] \<and> \<not> list_all isascii nl \<and> \<not> netloc_nfkc_ok rt nl))"

definition urlsplit ::
  "runtime \<Rightarrow> string \<Rightarrow> string
     \<Rightarrow> error + (string \<times> string \<times> string \<times> string \<times> string)" where
  "urlsplit rt url0 scheme0 =
     (let url1 = filter (\<lambda>c. \<not> unsafe_url_byte c) (lstrip_chars c0_control_or_space url0);
          scheme1 = filter (\<lambda>c. \<not> unsafe_url_byte c) (strip_chars c0_control_or_space scheme0);
          i = length (takeWhile (\<lambda>c. c \<noteq> CHR '':'') url1);
          found = (CHR '':'' \<in> set url1 \<and> 0 < i \<and> isalpha (hd url1)
                   \<and> (\<forall>c \<in> set (take i url1). c \<in> set scheme_chars));
          scheme2 = (if found then lower (take i url1) else scheme1);
          url2 = (if found then drop (i + 1) url1 else url1)
      in if take 2 url2 = ''//''
         then (case splitnetloc url2 of (nl, url3) \<Rightarrow>
                 if netloc_refused rt nl then Inl ValueError
                 else Inr (split_query_fragment scheme2 nl url3))
         else Inr (split_query_fragment scheme2 [] url2))"

text \<open>\<open>_splitparams(url)\<close>, called only when \<open>url\<close> holds a semicolon.\<close>

definition splitparams :: "string \<Rightarrow> string \<times> string" where
  "splitparams url =
     (if CHR ''/'' \<in> set url
      then (let k = length url - 1 - length (takeWhile (\<lambda>c. c \<noteq> CHR ''/'') (rev url));
                tl = drop k url
            in if CHR '';'' \<notin> set tl then (url, [])
               else (let i = k + length (takeWhile (\<lambda>c. c \<noteq> CHR '';'') tl)
                     in (take i url, drop (i + 1) url)))
      else (let i = length (takeWhile (\<lambda>c. c \<noteq> CHR '';'') url)
            in (take i url, drop (i + 1) url)))"

definition urlparse_scheme :: "runtime \<Rightarrow> string \<Rightarrow> string \<Rightarrow> error + parse_result" where
  "urlparse_scheme rt url scheme0 =
     then_do (urlsplit rt url scheme0) (\<lambda>(sch, nl, u, q, f).
       if sch \<in> set uses_params \<and> CHR '';'' \<in> set u
       then (case splitparams u of (u', ps) \<Rightarrow>
               Inr \<lparr>scheme = sch, netloc = nl, path = u', params = ps, query = q, fragment = f\<rparr>)
       else Inr \<lparr>scheme = sch, netloc = nl, path = u, params = [], query = q, fragment = f\<rparr>)"

definition urlparse :: "runtime \<Rightarrow> string \<Rightarrow> error + parse_result" where
  "urlparse rt url = urlparse_scheme rt url []"

definition urlunsplit :: "string \<Rightarrow> string \<Rightarrow> string \<Rightarrow> string \<Rightarrow> string \<Rightarrow> string" where
  "urlunsplit sch nl url q f =
     (let url1 = (if nl \<noteq> [] \<or> (sch \<noteq> [] \<and> sch \<in> set uses_netloc) \<or> take 2 url = ''//''
                  then ''//'' @ nl @ (if url \<noteq> [] \<and> take 1 url \<noteq> ''/'' then ''/'' @ url else url)
                  else url);
          url2 = (if sch \<noteq> [] then sch @ '':'' @ url1 else url1);
          url3 = (if q \<noteq> [] then url2 @ ''?'' @ q else url2)
      in if f \<noteq> [] then url3 @ ''#'' @ f else url3)"

definition urlunparse :: "parse_result \<Rightarrow> string" where
  "urlunparse p =
     urlunsplit (scheme p) (netloc p)
       (if params p \<noteq> [] then path p @ '';'' @ params p else path p) (query p) (fragment p)"

text \<open>The path resolution of \<open>urljoin\<close>: \<open>segments[1:-1] = filter(None, segments[1:-1])\<close>,
  then the loop over the segments, where \<open>..\<close> pops (and does nothing on an empty list).\<close>

definition filter_middle :: "string list \<Rightarrow> string list" where
  "filter_middle segs =
     (case segs of [] \<Rightarrow> [] | [x] \<Rightarrow> [x]
      | x # rest \<Rightarrow> x # filter (\<lambda>s. s \<noteq> []) (butlast rest) @ [last rest])"

definition resolve_segments :: "string list \<Rightarrow> string list" where
  "resolve_segments segs =
     foldl (\<lambda>acc seg. if seg = ''..'' then butlast acc else if seg = ''.'' then acc else acc @ [seg])
       [] segs"

definition urljoin :: "runtime \<Rightarrow> string \<Rightarrow> string \<Rightarrow> error + string" where
  "urljoin rt base url =
     (if base = [] then Inr url
      else if url = [] then Inr base
      else then_do (urlparse_scheme rt base []) (\<lambda>b.
           then_do (urlparse_scheme rt url (scheme b)) (\<lambda>u.
             if scheme u \<noteq> scheme b \<or> scheme u \<notin> set uses_relative then Inr url
             else if scheme u \<in> set uses_netloc \<and> netloc u \<noteq> [] then Inr (urlunparse u)
             else (let nl = (if scheme u \<in> set uses_netloc then netloc b else netloc u) in
               if path u = [] \<and> params u = []
               then Inr (urlunparse \<lparr>scheme = scheme u, netloc = nl, path = path b,
                           params = params b,
                           query = (if query u = [] then query b else query u),
                           fragment = fragment u\<rparr>)
               else (let bp = split_on CHR ''/'' (path b);
                         base_parts = (if last bp \<noteq> [] then butlast bp else bp);
                         segments = (if take 1 (path u) = ''/'' then split_on CHR ''/'' (path u)
                                     else filter_middle (base_parts @ split_on CHR ''/'' (path u)));
                         resolved = resolve_segments segments
                                    @ (if last segments \<in> set [''.'', ''..''] then [[]] else []);
                         joined = join ''/'' resolved
                     in Inr (urlunparse \<lparr>scheme = scheme u, netloc = nl,
                               path = (if joined = [] then ''/'' else joined),
                               params = params u, query = query u, fragment = fragment u\<rparr>))))))"

text \<open>Percent decoding. \<open>bytes.decode('utf-8', 'replace')\<close> keeps a well-formed sequence and
  puts U+FFFD for each ill-formed one: for a byte that cannot start a sequence, for the
  bytes of a sequence read before a byte that cannot continue it, and for a sequence cut
  off by the end of the data.\<close>

definition hexdig :: string where
  "hexdig = ''0123456789ABCDEFabcdef''"

definition hexval :: "char \<Rightarrow> nat" where
  "hexval c = (case map_of (zip hexdig
                   [0, 1, 2, 3, 4, 5, 6, 7, 8, 9, 10, 11, 12, 13, 14, 15, 10, 11, 12, 13, 14, 15]) c of
                 Some n \<Rightarrow> n | None \<Rightarrow> 0)"

definition unquote_item :: "string \<Rightarrow> string" where
  "unquote_item item =
     (case item of
        a # b # rest \<Rightarrow>
          if a \<in> set hexdig \<and> b \<in> set hexdig then char_of (16 * hexval a + hexval b) # rest
          else CHR ''%'' # item
      | _ \<Rightarrow> CHR ''%'' # item)"

definition unquote_to_bytes :: "string \<Rightarrow> bytes" where
  "unquote_to_bytes s =
     (case split_on CHR ''%'' s of [] \<Rightarrow> [] | b # items \<Rightarrow> b @ concat (map unquote_item items))"

definition replacement_char :: string where
  "replacement_char = [CHR 0xEF, CHR 0xBF, CHR 0xBD]"

definition is_cont :: "char \<Rightarrow> bool" where
  "is_cont c = (128 \<le> (of_char c :: nat) \<and> (of_char c :: nat) < 192)"

text \<open>Whether \<open>c2\<close> may follow the lead byte \<open>c\<close> of a sequence of three or four bytes.\<close>

definition second_ok :: "char \<Rightarrow> char \<Rightarrow> bool" where
  "second_ok c c2 =
     (let n = (of_char c :: nat); n2 = (of_char c2 :: nat)
      in is_cont c2 \<and> \<not> (n = 0xE0 \<and> n2 < 0xA0) \<and> \<not> (n = 0xED \<and> 0xA0 \<le> n2)
         \<and> \<not> (n = 0xF0 \<and> n2 < 0x90) \<and> \<not> (n = 0xF4 \<and> 0x90 \<le> n2))"

fun decode_replace :: "bytes \<Rightarrow> string" where
  "decode_replace [] = []"
| "decode_replace (c # cs) =
     (let n = (of_char c :: nat) in
      if n < 0x80 then c # decode_replace cs
      else if n < 0xC2 \<or> 0xF5 \<le> n then replacement_char @ decode_replace cs
      else if n < 0xE0 then
        (case cs of [] \<Rightarrow> replacement_char
         | c2 # r2 \<Rightarrow> if is_cont c2 then c # c2 # decode_replace r2
                       else replacement_char @ decode_replace cs)
      else if n < 0xF0 then
        (case cs of [] \<Rightarrow> replacement_char
         | c2 # r2 \<Rightarrow>
             if \<not> second_ok c c2 then replacement_char @ decode_replace cs
             else (case r2 of [] \<Rightarrow> replacement_char
                   | c3 # r3 \<Rightarrow> if is_cont c3 then c # c2 # c3 # decode_replace r3
                                 else replacement_char @ decode_replace r2))
      else
        (case cs of [] \<Rightarrow> replacement_char
         | c2 # r2 \<Rightarrow>
             if \<not> second_ok c c2 then replacement_char @ decode_replace cs
             else (case r2 of [] \<Rightarrow> replacement_char
                   | c3 # r3 \<Rightarrow>
                       if \<not> is_cont c3 then replacement_char @ decode_replace r2
                       else (case r3 of [] \<Rightarrow> replacement_char
                             | c4 # r4 \<Rightarrow> if is_cont c4 then c # c2 # c3 # c4 # decode_replace r4
                                           else replacement_char @ decode_replace r3))))"

text \<open>\<open>unquote\<close> decodes the ASCII runs of its argument and keeps the other characters.\<close>

fun runs :: "string \<Rightarrow> (bool \<times> string) list" where
  "runs [] = []"
| "runs (c # cs) =
     (case runs cs of
        [] \<Rightarrow> [(isascii c, [c])]
      | (a, r) # rest \<Rightarrow> if a = isascii c then (a, c # r) # rest
                         else (isascii c, [c]) # (a, r) # rest)"

definition unquote :: "string \<Rightarrow> string" where
  "unquote s =
     (if CHR ''%'' \<notin> set s then s
      else concat (map (\<lambda>(a, r). if a then decode_replace (unquote_to_bytes r) else r) (runs s)))"

definition unquote_plus :: "string \<Rightarrow> string" where
  "unquote_plus s = unquote (replace s ''+'' '' '')"

text \<open>\<open>parse_qsl(qs, keep_blank_values=True)\<close>: the separator is \<open>&\<close>, an empty field is
  passed over, a field with no \<open>=\<close> has the empty value.\<close>

definition parse_qsl :: "string \<Rightarrow> (string \<times> string) list" where
  "parse_qsl qs =
     (if qs = [] then []
      else map (\<lambda>name_value. case partition_at CHR ''='' name_value of
                  (name, _, v) \<Rightarrow> (unquote_plus name, unquote_plus v))
             (filter (\<lambda>name_value. name_value \<noteq> []) (split_on CHR ''&'' qs)))"

section \<open>The regular expressions of the program\<close>

text \<open>
  Each pattern of the program is written out as a matcher: given the character before
  the position (for \<open>\b\<close>) and the text from the position on, the length of the match there,
  if any. An alternation takes its first alternative, in the order written, after which
  the rest of the pattern matches; \<open>(?i)\<close> compares lowered text. No pattern of the
  program matches the empty string.
\<close>

type_synonym matcher = "char option \<Rightarrow> string \<Rightarrow> nat option"

definition match_alt :: "string list \<Rightarrow> (string \<Rightarrow> bool) \<Rightarrow> string \<Rightarrow> nat option" where
  "match_alt alts rest_ok s =
     (case filter (\<lambda>w. prefix w (lower s) \<and> rest_ok (drop (length w) s)) alts of
        [] \<Rightarrow> None
      | w # _ \<Rightarrow> Some (length w))"

text \<open>\<open>re.sub(pattern, repl, s)\<close>: the leftmost matches, not overlapping, are replaced. The
  counter is the number of characters of the current match still to be passed.\<close>

fun sub_scan :: "matcher \<Rightarrow> string \<Rightarrow> char option \<Rightarrow> nat \<Rightarrow> string \<Rightarrow> string" where
  "sub_scan m repl prev k [] = []"
| "sub_scan m repl prev k (c # cs) =
     (if 0 < k then sub_scan m repl (Some c) (k - 1) cs
      else (case m prev (c # cs) of
              Some n \<Rightarrow> repl @ sub_scan m repl (Some c) (n - 1) cs
            | None \<Rightarrow> c # sub_scan m repl (Some c) 0 cs))"

definition re_sub :: "matcher \<Rightarrow> string \<Rightarrow> string \<Rightarrow> string" where
  "re_sub m repl s = sub_scan m repl None 0 s"

text \<open>\<open>re.search(pattern, s)\<close> as a truth value: the pattern matches at some position.\<close>

fun search_scan :: "matcher \<Rightarrow> char option \<Rightarrow> string \<Rightarrow> bool" where
  "search_scan m prev [] = False"
| "search_scan m prev (c # cs) = (m prev (c # cs) \<noteq> None \<or> search_scan m (Some c) cs)"

definition re_search :: "matcher \<Rightarrow> string \<Rightarrow> bool" where
  "re_search m s = search_scan m None s"

text \<open>\<open>(?i)([_-])(thumb|thumbnail|small|sm|tn)\b\<close>\<close>

definition thumb_suffix_token :: matcher where
  "thumb_suffix_token prev s =
     (case s of
        [] \<Rightarrow> None
      | c # rest \<Rightarrow>
          if c \<in> set ''_-''
          then map_option Suc
                 (match_alt [''thumb'', ''thumbnail'', ''small'', ''sm'', ''tn'']
                    (\<lambda>r. case r of [] \<Rightarrow> True | d # _ \<Rightarrow> \<not> isword d) rest)
          else None)"

text \<open>\<open>(?i)\b(thumb|thumbnail|small)[_-]\<close>\<close>

definition thumb_prefix_token :: matcher where
  "thumb_prefix_token prev s =
     (if (case prev of None \<Rightarrow> True | Some p \<Rightarrow> \<not> isword p)
      then map_option Suc
             (match_alt [''thumb'', ''thumbnail'', ''small'']
                (\<lambda>r. case r of [] \<Rightarrow> False | d # _ \<Rightarrow> d \<in> set ''_-'') s)
      else None)"

text \<open>\<open>[^a-z0-9._-]+\<close>\<close>

definition unsafe_name_run :: matcher where
  "unsafe_name_run prev s =
     (let n = length (takeWhile (\<lambda>c. c \<notin> set (ascii_lower @ digits @ ''._-'')) s)
      in if 0 < n then Some n else None)"

text \<open>\<open>[?&](page|p)=\d+\<close>\<close>

definition page_query :: matcher where
  "page_query prev s =
     (case s of
        [] \<Rightarrow> None
      | c # rest \<Rightarrow>
          if c \<in> set ''?&''
          then (case filter (\<lambda>w. prefix w rest
                                \<and> (case drop (length w) rest of
                                      e # d # _ \<Rightarrow> e = CHR ''='' \<and> isdigit d
                                    | _ \<Rightarrow> False)) [''page'', ''p''] of
                  [] \<Rightarrow> None
                | w # _ \<Rightarrow> Some (length w + 2
                             + length (takeWhile isdigit (drop (length w + 1) rest))))
          else None)"

text \<open>\<open>\d{4}\<close>\<close>

definition four_digits :: matcher where
  "four_digits prev s = (if length s \<ge> 4 \<and> list_all isdigit (take 4 s) then Some 4 else None)"

text \<open>\<open>(pagination|pager|pagenav|nav-links)\<close> with \<open>re.I\<close>\<close>

definition pagination_class :: matcher where
  "pagination_class prev s =
     match_alt [''pagination'', ''pager'', ''pagenav'', ''nav-links''] (\<lambda>r. True) s"

section \<open>Numbers\<close>

text \<open>\<open>int(s)\<close> in base ten: surrounding whitespace, a sign, then digits in groups joined by
  single underscores. \<open>None\<close> is \<open>ValueError\<close>.\<close>

definition digit_value :: "char \<Rightarrow> nat" where
  "digit_value c = (of_char c :: nat) - 48"

definition py_int :: "string \<Rightarrow> int option" where
  "py_int s0 =
     (let s = strip s0;
          neg = (take 1 s = ''-'');
          body = (if take 1 s = ''-'' \<or> take 1 s = ''+'' then drop 1 s else s)
      in if list_all (\<lambda>g. g \<noteq> [] \<and> list_all isdigit g) (split_on CHR ''_'' body)
         then (let n = int (foldl (\<lambda>a c. 10 * a + digit_value c) 0
                              (filter (\<lambda>c. c \<noteq> CHR ''_'') body))
               in Some (if neg then - n else n))
         else None)"

section \<open>The program: constants and URL helpers\<close>

definition PROFILE_MARKERS :: "string list" where
  "PROFILE_MARKERS = [''avatar'', ''profile'', ''userpic'', ''gravatar'', ''author-photo'',
     ''member-photo'', ''display-picture'']"

definition THUMB_HINTS :: "string list" where
  "THUMB_HINTS = [''thumb'', ''thumbnail'', ''_tn'', ''-tn'', ''_sm'', ''-sm'', ''_small'',
     ''-small'', ''small/'', ''/small'']"

text \<open>The eighth and ninth markers are U+203A and U+00BB.\<close>

definition NEXT_TEXT_MARKERS :: "string list" where
  "NEXT_TEXT_MARKERS = [''next'', ''older'', ''more'', ''weiter'', ''suivant'', ''volgende'',
     ''nast'', [CHR 0xE2, CHR 0x80, CHR 0xBA], [CHR 0xC2, CHR 0xBB], ''>>'', ''>'']"

definition IMAGE_ATTRS :: "string list" where
  "IMAGE_ATTRS = [''src'', ''data-src'', ''data-original'', ''data-full'', ''data-lazy-src'']"

definition URL_QUERY_THUMB_KEYS :: "string list" where
  "URL_QUERY_THUMB_KEYS = [''w'', ''h'', ''width'', ''height'', ''size'', ''thumb'',
     ''thumbnail'', ''fit'', ''crop'', ''quality'']"

definition IMAGE_SUFFIXES :: "string list" where
  "IMAGE_SUFFIXES = [''.jpg'', ''.jpeg'', ''.png'', ''.gif'', ''.webp'', ''.bmp'', ''.tif'',
     ''.tiff'', ''.svg'', ''.avif'', ''.heic'']"

record ImageCandidate =
  page_url :: string
  urls :: "string list"
  skip_profile :: bool

definition normalize_url :: "runtime \<Rightarrow> string \<Rightarrow> string \<Rightarrow> error + string option" where
  "normalize_url rt raw_url base_url =
     (let raw = strip raw_url in
      if raw = [] then Inr None
      else if startswith raw [''javascript:'', ''mailto:'', ''tel:'', ''#''] then Inr None
      else then_do (urljoin rt base_url raw) (\<lambda>url.
           then_do (urlparse rt url) (\<lambda>parsed.
             if scheme parsed \<notin> set [''http'', ''https''] then Inr None
             else Inr (Some (urlunparse (parsed\<lparr>fragment := []\<rparr>))))))"

definition host_of :: "runtime \<Rightarrow> string \<Rightarrow> error + string" where
  "host_of rt url = then_do (urlparse rt url) (\<lambda>parsed. Inr (lower (netloc parsed)))"

definition looks_like_image_url :: "runtime \<Rightarrow> string \<Rightarrow> error + bool" where
  "looks_like_image_url rt url =
     then_do (urlparse rt url) (\<lambda>parsed. Inr (endswith (lower (path parsed)) IMAGE_SUFFIXES))"

definition sanitize_name :: "string \<Rightarrow> string" where
  "sanitize_name t =
     (let t1 = lower (strip t);
          t2 = re_sub unsafe_name_run ''_'' t1;
          t3 = strip_chars (\<lambda>c. c \<in> set ''._'') t2
      in if t3 = [] then ''image'' else t3)"

section \<open>The Variant Resolver\<close>

text \<open>The score of an entry of a \<open>srcset\<close> from the pieces after its URL.\<close>

definition descriptor_score :: "runtime \<Rightarrow> string list \<Rightarrow> error + int" where
  "descriptor_score rt descr =
     (case descr of
        [] \<Rightarrow> Inr 1
      | b # _ \<Rightarrow>
          (let token = lower (strip b) in
           if endswith token [''w'']
           then Inr (case py_int (butlast token) of Some n \<Rightarrow> n | None \<Rightarrow> 1)
           else if endswith token [''x'']
           then (case int_float_1000 rt (butlast token) of
                   Scaled n \<Rightarrow> Inr n
                 | Float_ValueError \<Rightarrow> Inr 1
                 | Float_OverflowError \<Rightarrow> Inl OverflowError)
           else Inr 1))"

text \<open>The loop of \<open>parse_srcset_best\<close> over the chunks, with \<open>best_url\<close> and \<open>best_score\<close>.\<close>

fun srcset_loop ::
  "runtime \<Rightarrow> string \<Rightarrow> string option \<Rightarrow> int \<Rightarrow> string list \<Rightarrow> error + string option" where
  "srcset_loop rt base_url best_url best_score [] = Inr best_url"
| "srcset_loop rt base_url best_url best_score (chunk # rest) =
     (let part = strip chunk in
      if part = [] then srcset_loop rt base_url best_url best_score rest
      else (case split_ws part of
              [] \<Rightarrow> Inl IndexError
            | raw # descr \<Rightarrow>
                (case normalize_url rt raw base_url of
                   Inl e \<Rightarrow> Inl e
                 | Inr None \<Rightarrow> srcset_loop rt base_url best_url best_score rest
                 | Inr (Some candidate) \<Rightarrow>
                     if candidate = [] then srcset_loop rt base_url best_url best_score rest
                     else (case descriptor_score rt descr of
                             Inl e \<Rightarrow> Inl e
                           | Inr score \<Rightarrow>
                               if score > best_score
                               then srcset_loop rt base_url (Some candidate) score rest
                               else srcset_loop rt base_url best_url best_score rest))))"

definition parse_srcset_best :: "runtime \<Rightarrow> string \<Rightarrow> string \<Rightarrow> error + string option" where
  "parse_srcset_best rt srcset base_url =
     srcset_loop rt base_url None (- 1) (split_on CHR '','' srcset)"

definition strip_thumbnail_query_params :: "runtime \<Rightarrow> string \<Rightarrow> error + string" where
  "strip_thumbnail_query_params rt url =
     then_do (urlparse rt url) (\<lambda>parsed.
       if query parsed = [] then Inr url
       else (let kept = filter (\<lambda>(k, v). lower k \<notin> set URL_QUERY_THUMB_KEYS)
                          (parse_qsl (query parsed));
                 new_query = join ''&'' (map (\<lambda>(k, v). if v \<noteq> [] then k @ ''='' @ v else k) kept)
             in Inr (urlunparse (parsed\<lparr>query := new_query\<rparr>))))"

text \<open>The loop that keeps the first occurrence of each element, with its \<open>seen\<close> set.\<close>

fun dedup_first :: "string set \<Rightarrow> string list \<Rightarrow> string list" where
  "dedup_first seen [] = []"
| "dedup_first seen (x # xs) =
     (if x \<in> seen then dedup_first seen xs else x # dedup_first (insert x seen) xs)"

text \<open>The five rewritten paths, in the order the set display lists them.\<close>

definition path_rewrites :: "string \<Rightarrow> string list" where
  "path_rewrites p =
     [replace p ''/thumb/'' ''/'',
      replace p ''/thumbs/'' ''/'',
      replace p ''/thumbnail/'' ''/'',
      re_sub thumb_suffix_token [] p,
      re_sub thumb_prefix_token [] p]"

definition guess_fullsize_variants :: "runtime \<Rightarrow> string \<Rightarrow> error + string list" where
  "guess_fullsize_variants rt url =
     then_do (strip_thumbnail_query_params rt url) (\<lambda>cleaned_query.
     then_do (urlparse rt url) (\<lambda>parsed.
       (let variants = [url] @ (if cleaned_query \<noteq> url then [cleaned_query] else []);
            path_variants = set_iter rt (path_rewrites (path parsed));
            variants2 = variants
              @ map (\<lambda>p. urlunparse (parsed\<lparr>path := p\<rparr>))
                  (filter (\<lambda>p. \<not> (p = [] \<or> p = path parsed)) path_variants)
        in Inr (dedup_first {} variants2))))"

section \<open>The Heuristic Classifier and the Candidate Extractor\<close>

definition keyword_match :: "string \<Rightarrow> string list \<Rightarrow> bool" where
  "keyword_match v keywords = (let lowered = lower v in list_ex (\<lambda>k. str_in k lowered) keywords)"

text \<open>What one attribute adds to \<open>attrs_to_scan\<close>.\<close>

definition scan_values :: "attr_value option \<Rightarrow> string list" where
  "scan_values v =
     (case v of
        Some (AList xs) \<Rightarrow> xs
      | Some (AStr s) \<Rightarrow> if s \<noteq> [] then [s] else []
      | None \<Rightarrow> [])"

definition is_likely_profile_image :: "element \<Rightarrow> element \<Rightarrow> string \<Rightarrow> bool" where
  "is_likely_profile_image tag parent url =
     (if keyword_match (lower url) PROFILE_MARKERS then True
      else (let attrs_to_scan =
                  concat (map (\<lambda>attr. scan_values (get tag attr)) [''class'', ''id'', ''alt'', ''title''])
                  @ concat (map (\<lambda>attr. scan_values (get parent attr)) [''class'', ''id''])
            in list_ex (\<lambda>t. keyword_match t PROFILE_MARKERS) attrs_to_scan))"

text \<open>A loop body that may raise, run over a list: the first exception ends the loop.\<close>

fun map_raise :: "('a \<Rightarrow> error + 'b) \<Rightarrow> 'a list \<Rightarrow> error + 'b list" where
  "map_raise f [] = Inr []"
| "map_raise f (x # xs) =
     (case f x of
        Inl e \<Rightarrow> Inl e
      | Inr y \<Rightarrow> (case map_raise f xs of Inl e \<Rightarrow> Inl e | Inr ys \<Rightarrow> Inr (y # ys)))"

text \<open>The URLs an attribute adds: none when the attribute is missing or empty, or when
  its value does not normalise.\<close>

definition attr_urls :: "runtime \<Rightarrow> element \<Rightarrow> string \<Rightarrow> string \<Rightarrow> error + string list" where
  "attr_urls rt tag base attr =
     (case get tag attr of
        None \<Rightarrow> Inr []
      | Some raw \<Rightarrow>
          if \<not> truthy (Some raw) then Inr []
          else then_do (normalize_url rt (str_of raw) base) (\<lambda>normalized.
                 Inr (case normalized of None \<Rightarrow> [] | Some u \<Rightarrow> if u = [] then [] else [u])))"

definition srcset_urls :: "runtime \<Rightarrow> element \<Rightarrow> string \<Rightarrow> error + string list" where
  "srcset_urls rt img base =
     (case get img ''srcset'' of
        None \<Rightarrow> Inr []
      | Some srcset \<Rightarrow>
          if \<not> truthy (Some srcset) then Inr []
          else then_do (parse_srcset_best rt (str_of srcset) base) (\<lambda>best.
                 Inr (case best of None \<Rightarrow> [] | Some u \<Rightarrow> if u = [] then [] else [u])))"

definition anchor_urls :: "runtime \<Rightarrow> element \<Rightarrow> string \<Rightarrow> error + string list" where
  "anchor_urls rt parent base =
     (if tag_name parent = ''a''
      then then_do (attr_urls rt parent base ''href'') (\<lambda>us.
             case us of
               [] \<Rightarrow> Inr []
             | anchor_url # _ \<Rightarrow>
                 then_do (looks_like_image_url rt anchor_url) (\<lambda>b. Inr (if b then [anchor_url] else [])))
      else Inr [])"

text \<open>The candidate of one \<open>img\<close> element, if it has any URL.\<close>

definition img_candidate ::
  "runtime \<Rightarrow> string \<Rightarrow> element \<times> element \<Rightarrow> error + ImageCandidate list" where
  "img_candidate rt base ip =
     (case ip of (img, parent) \<Rightarrow>
        then_do (srcset_urls rt img base) (\<lambda>u1.
        then_do (map_raise (attr_urls rt img base) IMAGE_ATTRS) (\<lambda>u2.
        then_do (anchor_urls rt parent base) (\<lambda>u0.
        then_do (map_raise (guess_fullsize_variants rt) (u0 @ u1 @ concat u2)) (\<lambda>vs.
          (case dedup_first {} (concat vs) of
             [] \<Rightarrow> Inr []
           | first # others \<Rightarrow>
               Inr [\<lparr>page_url = base, urls = first # others,
                     skip_profile = is_likely_profile_image img parent first\<rparr>]))))))"

text \<open>The candidate of one plain anchor, if its target looks like an image file.\<close>

definition anchor_candidate ::
  "runtime \<Rightarrow> string \<Rightarrow> element \<times> element \<Rightarrow> error + ImageCandidate list" where
  "anchor_candidate rt base ap =
     (case ap of (a, parent) \<Rightarrow>
        then_do (attr_urls rt a base ''href'') (\<lambda>us.
          case us of
            [] \<Rightarrow> Inr []
          | normalized # _ \<Rightarrow>
              then_do (looks_like_image_url rt normalized) (\<lambda>b.
                if \<not> b then Inr []
                else if keyword_match normalized PROFILE_MARKERS then Inr []
                else then_do (guess_fullsize_variants rt normalized) (\<lambda>variants.
                       Inr [\<lparr>page_url = base, urls = variants, skip_profile = False\<rparr>]))))"

text \<open>The last loop: the first candidate for each first URL is kept. \<open>candidate.urls[0]\<close>
  raises \<open>IndexError\<close> on an empty tuple.\<close>

fun dedup_candidates ::
  "string set \<Rightarrow> ImageCandidate list \<Rightarrow> error + ImageCandidate list" where
  "dedup_candidates seen_first_url [] = Inr []"
| "dedup_candidates seen_first_url (candidate # rest) =
     (case urls candidate of
        [] \<Rightarrow> Inl IndexError
      | key # _ \<Rightarrow>
          if key \<in> seen_first_url then dedup_candidates seen_first_url rest
          else (case dedup_candidates (insert key seen_first_url) rest of
                  Inl e \<Rightarrow> Inl e
                | Inr ds \<Rightarrow> Inr (candidate # ds)))"

definition extract_image_candidates ::
  "runtime \<Rightarrow> element \<Rightarrow> string \<Rightarrow> error + ImageCandidate list" where
  "extract_image_candidates rt soup base =
     then_do (map_raise (img_candidate rt base) (find_all soup ''img'')) (\<lambda>imgs.
     then_do (map_raise (anchor_candidate rt base) (find_all soup ''a'')) (\<lambda>anchors.
       dedup_candidates {} (concat imgs @ concat anchors)))"

section \<open>Links\<close>

text \<open>\<open>str(tag.get(key, ""))\<close>\<close>

definition str_or_empty :: "attr_value option \<Rightarrow> string" where
  "str_or_empty v = (case v of None \<Rightarrow> [] | Some a \<Rightarrow> str_of a)"

text \<open>\<open>" ".join(tag.get("rel", [])).lower() if tag.get("rel") else ""\<close>\<close>

definition rel_of :: "element \<Rightarrow> string" where
  "rel_of tag =
     (case get tag ''rel'' of
        None \<Rightarrow> []
      | Some v \<Rightarrow> if truthy (Some v) then lower (join_value v) else [])"

definition NEXT_ATTR_MARKERS :: "string list" where
  "NEXT_ATTR_MARKERS = [''next'', ''pagination'', ''pager'', ''older'', ''newer'']"

definition is_next_link :: "element \<Rightarrow> string \<Rightarrow> bool" where
  "is_next_link tag href =
     (if str_in ''next'' (rel_of tag) then True
      else (let txt = lower (get_text tag);
                attrs = lower (join '' '' [str_or_empty (get tag ''class''),
                                           str_or_empty (get tag ''id''),
                                           str_or_empty (get tag ''aria-label''),
                                           str_or_empty (get tag ''title'')]);
                href_l = lower href
            in if keyword_match txt NEXT_TEXT_MARKERS then True
               else if keyword_match attrs NEXT_ATTR_MARKERS then True
               else if re_search page_query href_l then True
               else False))"

text \<open>\<open>len\<close> of a string counts characters: the bytes that do not continue a sequence.\<close>

definition py_len :: "string \<Rightarrow> nat" where
  "py_len s = length (filter (\<lambda>c. \<not> is_cont c) s)"

definition is_probable_content_link :: "element \<Rightarrow> string \<Rightarrow> bool" where
  "is_probable_content_link tag href =
     (let href_l = lower href;
          attrs = lower (join '' '' [str_or_empty (get tag ''class''),
                                     str_or_empty (get tag ''id''),
                                     str_or_empty (get tag ''rel'')]);
          txt = lower (get_text tag)
      in if list_ex (\<lambda>x. str_in x href_l)
              [''/post'', ''/posts/'', ''/blog/'', ''/article'', ''/topic'', ''/thread'', ''/forum/'']
         then True
         else if list_ex (\<lambda>x. str_in x attrs) [''post'', ''entry'', ''topic'', ''thread'', ''article'']
         then True
         else if py_len txt > 15 \<and> re_search four_digits href_l then True
         else False)"

text \<open>The three loops of \<open>discover_links\<close>. A set of links is kept as the list of the links
  added to it, in the order of adding; the program reads the two sets only through
  \<open>sorted(next_links | content_links)\<close>.\<close>

definition link_rel_next :: "runtime \<Rightarrow> string \<Rightarrow> element \<times> element \<Rightarrow> error + string list" where
  "link_rel_next rt base lp =
     (case lp of (link, parent) \<Rightarrow>
        then_do (attr_urls rt link base ''href'') (\<lambda>us.
          case us of
            [] \<Rightarrow> Inr []
          | normalized # _ \<Rightarrow> Inr (if str_in ''next'' (rel_of link) then [normalized] else [])))"

definition anchor_links ::
  "runtime \<Rightarrow> bool \<Rightarrow> string \<Rightarrow> element \<times> element \<Rightarrow> error + (string list \<times> string list)" where
  "anchor_links rt follow_content_links base ap =
     (case ap of (a, parent) \<Rightarrow>
        then_do (attr_urls rt a base ''href'') (\<lambda>us.
          case us of
            [] \<Rightarrow> Inr ([], [])
          | normalized # _ \<Rightarrow>
              Inr (if is_next_link a normalized then [normalized] else [],
                   if follow_content_links \<and> is_probable_content_link a normalized
                   then [normalized] else [])))"

text \<open>Whether \<open>find_all(attrs={"class": pattern})\<close> takes the tag: a member of its class
  list matches, or the list joined by spaces does.\<close>

definition class_matches :: "element \<Rightarrow> bool" where
  "class_matches t =
     (case get t ''class'' of
        None \<Rightarrow> False
      | Some (AStr s) \<Rightarrow> re_search pagination_class s
      | Some (AList xs) \<Rightarrow>
          list_ex (re_search pagination_class) xs \<or> re_search pagination_class (join '' '' xs))"

definition pager_links :: "runtime \<Rightarrow> string \<Rightarrow> element \<times> element \<Rightarrow> error + string list" where
  "pager_links rt base np =
     (case np of (node, parent) \<Rightarrow>
        then_do (map_raise (\<lambda>(a, p). attr_urls rt a base ''href'') (find_all node ''a''))
          (\<lambda>us. Inr (concat us)))"

definition discover_links ::
  "runtime \<Rightarrow> element \<Rightarrow> string \<Rightarrow> bool \<Rightarrow> error + (string list \<times> string list)" where
  "discover_links rt soup base follow_content_links =
     then_do (map_raise (link_rel_next rt base) (find_all soup ''link'')) (\<lambda>l1.
     then_do (map_raise (anchor_links rt follow_content_links base) (find_all soup ''a'')) (\<lambda>l2.
     then_do (map_raise (pager_links rt base)
                (filter (\<lambda>(node, parent). class_matches node) (descendants soup))) (\<lambda>l3.
       Inr (concat l1 @ concat (map fst l2) @ concat l3, concat (map snd l2)))))"

section \<open>The Dedup and Fetch Resolver\<close>

definition guess_extension :: "runtime \<Rightarrow> string \<Rightarrow> string \<Rightarrow> error + string" where
  "guess_extension rt url ctype =
     then_do (urlparse rt url) (\<lambda>parsed.
       (let suffix = lower (path_suffix rt (path parsed)) in
        if suffix \<in> set IMAGE_SUFFIXES then Inr suffix
        else (case mimetypes_guess_extension rt
                     (lower (strip (takeWhile (\<lambda>c. c \<noteq> CHR '';'') ctype))) of
                None \<Rightarrow> Inr ''.jpg''
              | Some guessed \<Rightarrow> Inr (if guessed = [] then ''.jpg'' else guessed))))"

text \<open>What \<open>download_image\<close> reads and changes besides its arguments: the set
  \<open>seen_hashes\<close>, the files written (path and bytes, in the order of writing), and the
  variant URLs requested from the network, in the order of the requests.\<close>

record store =
  seen_hashes :: "string set"
  written :: "(string \<times> bytes) list"
  image_requests :: "string list"

type_synonym outcome = "string \<times> string option \<times> nat option \<times> string option"

text \<open>\<open>output_dir / filename\<close>, for a file name that does not start with a slash.\<close>

definition path_join :: "string \<Rightarrow> string \<Rightarrow> string" where
  "path_join dir name = dir @ ''/'' @ name"

fun try_variants ::
  "runtime \<Rightarrow> ImageCandidate \<Rightarrow> string \<Rightarrow> bool \<Rightarrow> string list \<Rightarrow> store \<Rightarrow> string list
     \<Rightarrow> (error + outcome) \<times> store" where
  "try_variants rt candidate output_dir dry skip_url_keywords st [] =
     (Inr (''failed_all_variants'', None, None, None), st)"
| "try_variants rt candidate output_dir dry skip_url_keywords st (url # rest) =
     (if keyword_match url skip_url_keywords
      then (Inr (''skipped_custom_keyword'', None, None, None), st)
      else if skip_profile candidate
      then (Inr (''skipped_profile'', None, None, None), st)
      else (let st1 = st\<lparr>image_requests := image_requests st @ [url]\<rparr> in
        case session_get rt url of
          None \<Rightarrow> try_variants rt candidate output_dir dry skip_url_keywords st1 rest
        | Some resp \<Rightarrow>
            if status_code resp \<ge> 400
            then try_variants rt candidate output_dir dry skip_url_keywords st1 rest
            else (let ctype = lower (case content_type resp of None \<Rightarrow> [] | Some c \<Rightarrow> c) in
              case (if str_in ''image'' ctype then Inr True else looks_like_image_url rt url) of
                Inl e \<Rightarrow> (Inl e, st1)
              | Inr False \<Rightarrow> try_variants rt candidate output_dir dry skip_url_keywords st1 rest
              | Inr True \<Rightarrow>
                  (let data = content resp in
                   if data = []
                   then try_variants rt candidate output_dir dry skip_url_keywords st1 rest
                   else if length data < 512 \<and> keyword_match url THUMB_HINTS
                   then try_variants rt candidate output_dir dry skip_url_keywords st1 rest
                   else (let digest = sha256_hexdigest rt data in
                     if digest \<in> seen_hashes st1
                     then (Inr (''duplicate'', None, Some (length data), Some digest), st1)
                     else if dry
                     then (Inr (''would_download'', None, Some (length data), Some digest),
                           st1\<lparr>seen_hashes := insert digest (seen_hashes st1)\<rparr>)
                     else (case guess_extension rt url ctype of
                             Inl e \<Rightarrow> (Inl e, st1)
                           | Inr ext \<Rightarrow>
                               (case urlparse rt url of
                                  Inl e \<Rightarrow> (Inl e, st1)
                                | Inr parsed \<Rightarrow>
                                    (let stem0 = path_stem rt (path parsed);
                                         stem = sanitize_name (if stem0 = [] then ''image'' else stem0);
                                         filename = stem @ ''_'' @ take 12 digest @ ext;
                                         out_path = path_join output_dir filename
                                     in (Inr (''downloaded'', Some out_path, Some (length data),
                                              Some digest),
                                         st1\<lparr>written := written st1 @ [(out_path, data)],
                                             seen_hashes := insert digest (seen_hashes st1)\<rparr>)))))))))"

definition download_image ::
  "runtime \<Rightarrow> ImageCandidate \<Rightarrow> string \<Rightarrow> bool \<Rightarrow> string list \<Rightarrow> store
     \<Rightarrow> (error + outcome) \<times> store" where
  "download_image rt candidate output_dir dry skip_url_keywords st =
     try_variants rt candidate output_dir dry skip_url_keywords st (urls candidate)"

text \<open>The loop body of \<open>download_image\<close> in two parts. \<open>passed_over\<close> collects the tests that
  end in \<open>continue\<close>: the request failed, the status is 400 or more, neither the content type
  nor the URL says image, the body is empty, or the body is small and the URL carries a
  thumbnail hint. \<open>accept_variant\<close> is the rest of the body, from the image test on, for a
  response that is not passed over.\<close>

definition passed_over :: "runtime \<Rightarrow> string \<Rightarrow> bool" where
  "passed_over rt url =
     (case session_get rt url of
        None \<Rightarrow> True
      | Some resp \<Rightarrow>
          status_code resp \<ge> 400
          \<or> (\<not> str_in ''image'' (lower (case content_type resp of None \<Rightarrow> [] | Some c \<Rightarrow> c))
              \<and> looks_like_image_url rt url = Inr False)
          \<or> ((str_in ''image'' (lower (case content_type resp of None \<Rightarrow> [] | Some c \<Rightarrow> c))
               \<or> looks_like_image_url rt url = Inr True)
              \<and> (content resp = []
                  \<or> (length (content resp) < 512 \<and> keyword_match url THUMB_HINTS))))"

definition accept_variant ::
  "runtime \<Rightarrow> string \<Rightarrow> string \<Rightarrow> bool \<Rightarrow> store \<Rightarrow> response \<Rightarrow> (error + outcome) \<times> store" where
  "accept_variant rt url output_dir dry st1 resp =
     (let ctype = lower (case content_type resp of None \<Rightarrow> [] | Some c \<Rightarrow> c);
          data = content resp;
          digest = sha256_hexdigest rt data
      in case (if str_in ''image'' ctype then Inr True else looks_like_image_url rt url) of
           Inl e \<Rightarrow> (Inl e, st1)
         | Inr b \<Rightarrow>
             if digest \<in> seen_hashes st1
             then (Inr (''duplicate'', None, Some (length data), Some digest), st1)
             else if dry
             then (Inr (''would_download'', None, Some (length data), Some digest),
                   st1\<lparr>seen_hashes := insert digest (seen_hashes st1)\<rparr>)
             else (case guess_extension rt url ctype of
                     Inl e \<Rightarrow> (Inl e, st1)
                   | Inr ext \<Rightarrow>
                       (case urlparse rt url of
                          Inl e \<Rightarrow> (Inl e, st1)
                        | Inr parsed \<Rightarrow>
                            (let stem0 = path_stem rt (path parsed);
                                 stem = sanitize_name (if stem0 = [] then ''image'' else stem0);
                                 out_path = path_join output_dir
                                              (stem @ ''_'' @ take 12 digest @ ext)
                             in (Inr (''downloaded'', Some out_path, Some (length data), Some digest),
                                 st1\<lparr>written := written st1 @ [(out_path, data)],
                                     seen_hashes := insert digest (seen_hashes st1)\<rparr>)))))"

text \<open>The six statuses that \<open>download_image\<close> returns.\<close>

definition outcome_statuses :: "string list" where
  "outcome_statuses = [''downloaded'', ''would_download'', ''duplicate'', ''skipped_profile'',
     ''skipped_custom_keyword'', ''failed_all_variants'']"

text \<open>What a decision does to the store, by its status.\<close>

definition outcome_ok :: "store \<Rightarrow> bool \<Rightarrow> outcome \<Rightarrow> store \<Rightarrow> bool" where
  "outcome_ok st dry out st' =
     (case out of (s, p, n, dg) \<Rightarrow>
        (dg = None \<and> seen_hashes st' = seen_hashes st \<and> written st' = written st
           \<and> (s = ''failed_all_variants'' \<or> s = ''skipped_custom_keyword''
               \<or> s = ''skipped_profile''))
      \<or> (\<exists>d. dg = Some d \<and> d \<in> seen_hashes st \<and> s = ''duplicate''
             \<and> seen_hashes st' = seen_hashes st \<and> written st' = written st)
      \<or> (\<exists>d. dg = Some d \<and> d \<notin> seen_hashes st \<and> dry \<and> s = ''would_download''
             \<and> seen_hashes st' = insert d (seen_hashes st) \<and> written st' = written st)
      \<or> (\<exists>d. dg = Some d \<and> d \<notin> seen_hashes st \<and> \<not> dry \<and> s = ''downloaded''
             \<and> seen_hashes st' = insert d (seen_hashes st)))"

definition is_html_response :: "response \<Rightarrow> bool" where
  "is_html_response resp =
     (let ctype = lower (case content_type resp of None \<Rightarrow> [] | Some c \<Rightarrow> c)
      in str_in ''text/html'' ctype \<or> str_in ''application/xhtml+xml'' ctype \<or> ctype = [])"

section \<open>The Crawl Traversal\<close>

text \<open>The arguments the crawl reads. The delay between pages, the timeout and the user
  agent only reach \<open>time.sleep\<close> and the session, which the runtime stands for.\<close>

record args =
  start_urls :: "string list"
  output_arg :: string
  max_pages :: int
  allow_cross_domain :: bool
  no_follow_content_links :: bool
  dry_run :: bool
  skip_url_keyword :: "string list"

text \<open>A row of the manifest as handed to the CSV writer, after the header row.\<close>

record manifest_row =
  row_page_url :: string
  image_url :: string
  status :: string
  saved_path :: string
  byte_count :: "nat option"
  sha256 :: string
  variant_count :: nat

text \<open>The variables of \<open>crawl_and_download\<close>, with the manifest written so far, the pages
  requested from the network in the order of the requests, and the exception that ended
  the crawl, if one did.\<close>

record crawl_state =
  queue :: "string list"
  visited_pages :: "string set"
  seen_image_urls :: "string set"
  io :: store
  total_pages :: int
  downloaded :: nat
  would_download :: nat
  skipped_profile :: nat
  duplicates :: nat
  failed :: nat
  manifest :: "manifest_row list"
  page_requests :: "string list"
  raised :: "error option"

definition count_status :: "string \<Rightarrow> crawl_state \<Rightarrow> crawl_state" where
  "count_status s c =
     (if s = ''downloaded'' then c\<lparr>downloaded := downloaded c + 1\<rparr>
      else if s = ''would_download'' then c\<lparr>would_download := would_download c + 1\<rparr>
      else if s = ''skipped_profile'' then c\<lparr>skipped_profile := skipped_profile c + 1\<rparr>
      else if s = ''duplicate'' then c\<lparr>duplicates := duplicates c + 1\<rparr>
      else c\<lparr>failed := failed c + 1\<rparr>)"

text \<open>The body of the loop over the candidates of a page.\<close>

definition process_candidate ::
  "runtime \<Rightarrow> args \<Rightarrow> string \<Rightarrow> string list \<Rightarrow> string \<Rightarrow> ImageCandidate \<Rightarrow> crawl_state
     \<Rightarrow> crawl_state" where
  "process_candidate rt a image_out_dir skip_keywords purl candidate c =
     (case urls candidate of
        [] \<Rightarrow> c\<lparr>raised := Some IndexError\<rparr>
      | first_url # _ \<Rightarrow>
          if first_url \<in> seen_image_urls c then c
          else (let c1 = c\<lparr>seen_image_urls := insert first_url (seen_image_urls c)\<rparr> in
            case download_image rt candidate image_out_dir (dry_run a) skip_keywords (io c1) of
              (Inl e, st) \<Rightarrow> c1\<lparr>io := st, raised := Some e\<rparr>
            | (Inr (s, path_opt, bytes_opt, digest), st) \<Rightarrow>
                (count_status s (c1\<lparr>io := st\<rparr>))
                  \<lparr>manifest := manifest c1 @
                     [\<lparr>row_page_url = purl, image_url = first_url, status = s,
                       saved_path = (case path_opt of None \<Rightarrow> [] | Some p \<Rightarrow> p),
                       byte_count = bytes_opt,
                       sha256 = (case digest of None \<Rightarrow> [] | Some d \<Rightarrow> d),
                       variant_count = length (urls candidate)\<rparr>]\<rparr>))"

fun process_candidates ::
  "runtime \<Rightarrow> args \<Rightarrow> string \<Rightarrow> string list \<Rightarrow> string \<Rightarrow> ImageCandidate list \<Rightarrow> crawl_state
     \<Rightarrow> crawl_state" where
  "process_candidates rt a image_out_dir skip_keywords purl [] c = c"
| "process_candidates rt a image_out_dir skip_keywords purl (candidate # rest) c =
     (let c1 = process_candidate rt a image_out_dir skip_keywords purl candidate c in
      if raised c1 \<noteq> None then c1
      else process_candidates rt a image_out_dir skip_keywords purl rest c1)"

text \<open>The loop over the sorted links of a page.\<close>

fun enqueue_links :: "runtime \<Rightarrow> bool \<Rightarrow> string list \<Rightarrow> string list \<Rightarrow> crawl_state \<Rightarrow> crawl_state" where
  "enqueue_links rt cross allowed_hosts [] c = c"
| "enqueue_links rt cross allowed_hosts (link # rest) c =
     (if link \<in> visited_pages c then enqueue_links rt cross allowed_hosts rest c
      else if cross then enqueue_links rt cross allowed_hosts rest (c\<lparr>queue := queue c @ [link]\<rparr>)
      else (case host_of rt link of
              Inl e \<Rightarrow> c\<lparr>raised := Some e\<rparr>
            | Inr h \<Rightarrow>
                if h \<notin> set allowed_hosts then enqueue_links rt cross allowed_hosts rest c
                else enqueue_links rt cross allowed_hosts rest (c\<lparr>queue := queue c @ [link]\<rparr>)))"

text \<open>A page whose response is HTML: it is counted, its candidates are resolved, its links
  are queued.\<close>

definition process_page ::
  "runtime \<Rightarrow> args \<Rightarrow> string list \<Rightarrow> string list \<Rightarrow> string \<Rightarrow> string \<Rightarrow> response
     \<Rightarrow> crawl_state \<Rightarrow> crawl_state" where
  "process_page rt a allowed_hosts skip_keywords output_root purl resp c =
     (let c3 = c\<lparr>total_pages := total_pages c + 1\<rparr>;
          soup = html_parser rt (text_of resp)
      in case extract_image_candidates rt soup purl of
           Inl e \<Rightarrow> c3\<lparr>raised := Some e\<rparr>
         | Inr candidates \<Rightarrow>
             (case host_of rt purl of
                Inl e \<Rightarrow> c3\<lparr>raised := Some e\<rparr>
              | Inr h \<Rightarrow>
                  (let image_out_dir = path_join (path_join output_root (sanitize_name h)) ''images'';
                       c4 = process_candidates rt a image_out_dir skip_keywords purl candidates c3
                   in if raised c4 \<noteq> None then c4
                      else (case discover_links rt soup purl (\<not> no_follow_content_links a) of
                              Inl e \<Rightarrow> c4\<lparr>raised := Some e\<rparr>
                            | Inr (next_links, content_links) \<Rightarrow>
                                enqueue_links rt (allow_cross_domain a) allowed_hosts
                                  (sort (remdups (next_links @ content_links))) c4))))"

text \<open>The body of the \<open>while\<close> loop, after \<open>queue.popleft()\<close>.\<close>

definition crawl_page ::
  "runtime \<Rightarrow> args \<Rightarrow> string list \<Rightarrow> string list \<Rightarrow> string \<Rightarrow> string \<Rightarrow> crawl_state
     \<Rightarrow> crawl_state" where
  "crawl_page rt a allowed_hosts skip_keywords output_root purl c =
     (if purl \<in> visited_pages c then c
      else (let c1 = c\<lparr>visited_pages := insert purl (visited_pages c)\<rparr> in
        case (if allow_cross_domain a then Inr True
              else then_do (host_of rt purl) (\<lambda>h. Inr (h \<in> set allowed_hosts))) of
          Inl e \<Rightarrow> c1\<lparr>raised := Some e\<rparr>
        | Inr False \<Rightarrow> c1
        | Inr True \<Rightarrow>
            (let c2 = c1\<lparr>page_requests := page_requests c1 @ [purl]\<rparr> in
             case session_get rt purl of
               None \<Rightarrow> c2
             | Some resp \<Rightarrow>
                 if status_code resp \<ge> 400 \<or> \<not> is_html_response resp then c2
                 else process_page rt a allowed_hosts skip_keywords output_root purl resp c2)))"

lemma process_candidate_frame:
  "total_pages (process_candidate rt a d k p cand c) = total_pages c
   \<and> queue (process_candidate rt a d k p cand c) = queue c"
  by (simp add: process_candidate_def count_status_def Let_def
           split: list.split prod.split sum.split)

lemma process_candidates_frame:
  "total_pages (process_candidates rt a d k p cs c) = total_pages c
   \<and> queue (process_candidates rt a d k p cs c) = queue c"
  by (induction cs arbitrary: c) (simp_all add: Let_def process_candidate_frame)

lemma enqueue_links_total: "total_pages (enqueue_links rt x al ls c) = total_pages c"
  by (induction x al ls c rule: enqueue_links.induct) (simp_all split: sum.split)

lemma process_page_total:
  "total_pages (process_page rt a al k root p resp c) = total_pages c + 1"
  by (simp add: process_page_def Let_def process_candidates_frame enqueue_links_total
           split: sum.split prod.split)

lemma crawl_page_progress:
  "total_pages (crawl_page rt a al k root p c) = total_pages c + 1
   \<or> (total_pages (crawl_page rt a al k root p c) = total_pages c
      \<and> queue (crawl_page rt a al k root p c) = queue c)"
  by (simp add: crawl_page_def Let_def process_page_total
           split: sum.split bool.split option.split)

text \<open>\<open>while queue and total_pages < args.max_pages\<close>; an uncaught exception ends the loop.\<close>

function crawl_loop ::
  "runtime \<Rightarrow> args \<Rightarrow> string list \<Rightarrow> string list \<Rightarrow> string \<Rightarrow> crawl_state \<Rightarrow> crawl_state" where
  "crawl_loop rt a allowed_hosts skip_keywords output_root c =
     (case queue c of
        [] \<Rightarrow> c
      | purl # rest \<Rightarrow>
          if total_pages c < max_pages a \<and> raised c = None
          then crawl_loop rt a allowed_hosts skip_keywords output_root
                 (crawl_page rt a allowed_hosts skip_keywords output_root purl (c\<lparr>queue := rest\<rparr>))
          else c)"
  by pat_completeness auto
termination
proof (relation "measures [\<lambda>(rt, a, al, k, root, c). nat (max_pages a - total_pages c),
                           \<lambda>(rt, a, al, k, root, c). length (queue c)]")
  show "wf (measures [\<lambda>(rt, a, al, k, root, c). nat (max_pages a - total_pages c),
                      \<lambda>(rt, a, al, k, root, c). length (queue c)])"
    by simp
next
  fix rt :: runtime and a :: args and allowed_hosts skip_keywords :: "string list"
    and output_root :: string and c :: crawl_state and purl :: string and rest :: "string list"
  assume q: "queue c = purl # rest" and go: "total_pages c < max_pages a \<and> raised c = None"
  let ?c0 = "c\<lparr>queue := rest\<rparr>"
  let ?c' = "crawl_page rt a allowed_hosts skip_keywords output_root purl ?c0"
  have "total_pages ?c' = total_pages ?c0 + 1
        \<or> (total_pages ?c' = total_pages ?c0 \<and> queue ?c' = queue ?c0)"
    by (rule crawl_page_progress)
  then show "((rt, a, allowed_hosts, skip_keywords, output_root, ?c'),
              (rt, a, allowed_hosts, skip_keywords, output_root, c))
             \<in> measures [\<lambda>(rt, a, al, k, root, c). nat (max_pages a - total_pages c),
                          \<lambda>(rt, a, al, k, root, c). length (queue c)]"
    using q go by auto
qed

definition initial_state :: "string list \<Rightarrow> crawl_state" where
  "initial_state urls0 =
     \<lparr>queue = urls0, visited_pages = {}, seen_image_urls = {},
      io = \<lparr>seen_hashes = {}, written = [], image_requests = []\<rparr>,
      total_pages = 0, downloaded = 0, would_download = 0, skipped_profile = 0,
      duplicates = 0, failed = 0, manifest = [], page_requests = [], raised = None\<rparr>"

text \<open>The whole of \<open>crawl_and_download\<close>: the exit status (or the exception) and the final
  state. \<open>normalize_url(x, x)\<close> and \<open>host_of\<close> run before the first request.\<close>

definition crawl_and_download :: "runtime \<Rightarrow> args \<Rightarrow> (error + int) \<times> crawl_state" where
  "crawl_and_download rt a =
     (case map_raise (\<lambda>x. normalize_url rt x x) (start_urls a) of
        Inl e \<Rightarrow> (Inl e, initial_state [])
      | Inr ns \<Rightarrow>
          (let urls0 = concat (map (\<lambda>n. case n of None \<Rightarrow> [] | Some u \<Rightarrow> if u = [] then [] else [u]) ns)
           in if urls0 = [] then (Inr 2, initial_state [])
              else (case map_raise (host_of rt) urls0 of
                      Inl e \<Rightarrow> (Inl e, initial_state urls0)
                    | Inr allowed_hosts \<Rightarrow>
                        (let skip_keywords = map (\<lambda>k. lower (strip k))
                                               (filter (\<lambda>k. strip k \<noteq> []) (skip_url_keyword a));
                             c = crawl_loop rt a allowed_hosts skip_keywords
                                   (path_resolve rt (output_arg a)) (initial_state urls0)
                         in (case raised c of None \<Rightarrow> (Inr 0, c) | Some e \<Rightarrow> (Inl e, c))))))"

section \<open>Exceptions: which can be raised, and where\<close>

text \<open>The functions that parse a URL raise \<open>ValueError\<close> and nothing else; the loops that
  read a first element never raise \<open>IndexError\<close>.\<close>

lemma then_do_Inr_iff: "then_do m f = Inr y \<longleftrightarrow> (\<exists>x. m = Inr x \<and> f x = Inr y)"
  by (cases m) (simp_all add: then_do_def)

lemma then_do_Inl_iff: "then_do m f = Inl e \<longleftrightarrow> m = Inl e \<or> (\<exists>x. m = Inr x \<and> f x = Inl e)"
  by (cases m) (simp_all add: then_do_def)

lemma dedup_first_set: "set (dedup_first S xs) = set xs - S"
  by (induction xs arbitrary: S) auto

lemma dedup_first_distinct: "distinct (dedup_first S xs)"
  by (induction xs arbitrary: S) (auto simp: dedup_first_set)

lemma urlsplit_error: "urlsplit rt u s = Inl e \<Longrightarrow> e = ValueError"
  by (auto simp: urlsplit_def Let_def split: if_splits prod.splits)

lemma urlparse_scheme_error: "urlparse_scheme rt u s = Inl e \<Longrightarrow> e = ValueError"
  by (auto simp: urlparse_scheme_def then_do_Inl_iff split: if_splits prod.splits dest: urlsplit_error)

lemma urlparse_error: "urlparse rt u = Inl e \<Longrightarrow> e = ValueError"
  by (simp add: urlparse_def urlparse_scheme_error)

lemma urljoin_error: "urljoin rt b u = Inl e \<Longrightarrow> e = ValueError"
  by (auto simp: urljoin_def then_do_Inl_iff Let_def split: if_splits dest: urlparse_scheme_error)

lemma normalize_url_error: "normalize_url rt r b = Inl e \<Longrightarrow> e = ValueError"
  by (auto simp: normalize_url_def then_do_Inl_iff Let_def split: if_splits dest: urljoin_error urlparse_error)

lemma host_of_error: "host_of rt u = Inl e \<Longrightarrow> e = ValueError"
  by (auto simp: host_of_def then_do_Inl_iff dest: urlparse_error)

lemma looks_like_image_url_error: "looks_like_image_url rt u = Inl e \<Longrightarrow> e = ValueError"
  by (auto simp: looks_like_image_url_def then_do_Inl_iff dest: urlparse_error)

lemma strip_thumbnail_query_params_error: "strip_thumbnail_query_params rt u = Inl e \<Longrightarrow> e = ValueError"
  by (auto simp: strip_thumbnail_query_params_def then_do_Inl_iff Let_def split: if_splits dest: urlparse_error)

lemma guess_fullsize_variants_error: "guess_fullsize_variants rt u = Inl e \<Longrightarrow> e = ValueError"
  by (auto simp: guess_fullsize_variants_def then_do_Inl_iff Let_def
           dest: urlparse_error strip_thumbnail_query_params_error)

lemma guess_fullsize_variants_shape:
  assumes "guess_fullsize_variants rt url = Inr vs"
  shows "\<exists>rest. vs = url # rest \<and> distinct vs"
proof -
  from assms obtain ws where "vs = dedup_first {} (url # ws)"
    by (auto simp: guess_fullsize_variants_def then_do_Inr_iff Let_def)
  then show ?thesis
    using dedup_first_distinct [of "{}" "url # ws"] by simp
qed

lemma guess_fullsize_variants_total:
  assumes "urlparse rt url = Inr p"
  shows "\<exists>vs. guess_fullsize_variants rt url = Inr vs"
  using assms
  by (simp add: guess_fullsize_variants_def strip_thumbnail_query_params_def then_do_def Let_def)

lemma split_acc_nonempty:
  "cur \<noteq> [] \<or> (\<exists>c \<in> set s. \<not> isspace c) \<Longrightarrow> split_acc cur s \<noteq> []"
  by (induction s arbitrary: cur) auto

lemma strip_has_nonspace:
  assumes "strip s \<noteq> []"
  shows "\<exists>c \<in> set (strip s). \<not> isspace c"
proof -
  let ?u = "dropWhile isspace (rev (dropWhile isspace s))"
  from assms have ne: "?u \<noteq> []" by (simp add: strip_def strip_chars_def)
  then have "\<not> isspace (hd ?u)" by (rule hd_dropWhile)
  moreover from ne have "hd ?u \<in> set (strip s)" by (simp add: strip_def strip_chars_def)
  ultimately show ?thesis by blast
qed

lemma split_ws_strip_nonempty: "strip s \<noteq> [] \<Longrightarrow> split_ws (strip s) \<noteq> []"
  unfolding split_ws_def by (rule split_acc_nonempty) (simp add: strip_has_nonspace)


lemma descriptor_score_error: "descriptor_score rt d = Inl e \<Longrightarrow> e = OverflowError"
  by (auto simp: descriptor_score_def Let_def split: list.splits if_splits scaled.splits)

lemma srcset_loop_error:
  "srcset_loop rt b bu bs chunks = Inl e \<Longrightarrow> e \<noteq> IndexError"
proof (induction chunks arbitrary: bu bs)
  case Nil
  then show ?case by simp
next
  case (Cons chunk rest)
  show ?case
  proof (cases "strip chunk = []")
    case True
    with Cons show ?thesis by simp
  next
    case False
    then obtain raw d where sp: "split_ws (strip chunk) = raw # d"
      using split_ws_strip_nonempty [of chunk] by (cases "split_ws (strip chunk)") auto
    with Cons False show ?thesis
      by (auto simp: Let_def split: sum.splits option.splits if_splits
               dest: normalize_url_error descriptor_score_error)
  qed
qed

lemma parse_srcset_best_error: "parse_srcset_best rt s b = Inl e \<Longrightarrow> e \<noteq> IndexError"
  unfolding parse_srcset_best_def by (rule srcset_loop_error)

lemma attr_urls_error: "attr_urls rt t b k = Inl e \<Longrightarrow> e = ValueError"
  by (auto simp: attr_urls_def then_do_Inl_iff split: option.splits if_splits
           dest: normalize_url_error)

lemma srcset_urls_error: "srcset_urls rt t b = Inl e \<Longrightarrow> e \<noteq> IndexError"
  by (auto simp: srcset_urls_def then_do_Inl_iff split: option.splits if_splits
           dest: parse_srcset_best_error)

lemma anchor_urls_error:
  assumes "anchor_urls rt t b = Inl e"
  shows "e = ValueError"
proof (cases "attr_urls rt t b ''href''")
  case (Inl e')
  with assms show ?thesis
    by (auto simp: anchor_urls_def then_do_def split: if_splits dest: attr_urls_error)
next
  case (Inr us)
  with assms show ?thesis
    by (cases us)
       (auto simp: anchor_urls_def then_do_def split: if_splits sum.splits
             dest: looks_like_image_url_error)
qed

lemma map_raise_Inl: "map_raise f xs = Inl e \<Longrightarrow> \<exists>x \<in> set xs. f x = Inl e"
  by (induction xs) (auto split: sum.splits)

lemma map_raise_Inr: "map_raise f xs = Inr ys \<Longrightarrow> list_all2 (\<lambda>x y. f x = Inr y) xs ys"
  by (induction xs arbitrary: ys) (auto split: sum.splits)

lemma img_candidate_cases:
  assumes "img_candidate rt b (img, parent) = r"
  obtains e where "r = Inl e" "e \<noteq> IndexError"
  | "r = Inr []"
  | f others where "r = Inr [\<lparr>page_url = b, urls = f # others,
                                skip_profile = is_likely_profile_image img parent f\<rparr>]"
proof (cases "srcset_urls rt img b")
  case (Inl e)
  with assms that(1) show ?thesis
    by (auto simp: img_candidate_def then_do_def dest: srcset_urls_error)
next
  case u1: (Inr u1)
  show ?thesis
  proof (cases "map_raise (attr_urls rt img b) IMAGE_ATTRS")
    case (Inl e)
    with assms u1 that(1) show ?thesis
      by (auto simp: img_candidate_def then_do_def dest!: map_raise_Inl dest: attr_urls_error)
  next
    case u2: (Inr u2)
    show ?thesis
    proof (cases "anchor_urls rt parent b")
      case (Inl e)
      with assms u1 u2 that(1) show ?thesis
        by (auto simp: img_candidate_def then_do_def dest: anchor_urls_error)
    next
      case u0: (Inr u0)
      show ?thesis
      proof (cases "map_raise (guess_fullsize_variants rt) (u0 @ u1 @ concat u2)")
        case (Inl e)
        with assms u1 u2 u0 that(1) show ?thesis
          by (auto simp: img_candidate_def then_do_def
                   dest!: map_raise_Inl dest: guess_fullsize_variants_error)
      next
        case (Inr vs)
        with assms u1 u2 u0 that(2,3) show ?thesis
          by (cases "dedup_first {} (concat vs)") (auto simp: img_candidate_def then_do_def)
      qed
    qed
  qed
qed

lemma img_candidate_error: "img_candidate rt b ip = Inl e \<Longrightarrow> e \<noteq> IndexError"
  by (cases ip) (auto elim: img_candidate_cases)

lemma img_candidate_urls: "img_candidate rt b ip = Inr cs \<Longrightarrow> c \<in> set cs \<Longrightarrow> urls c \<noteq> []"
  by (cases ip) (auto elim!: img_candidate_cases)

lemma anchor_candidate_cases:
  assumes "anchor_candidate rt b (a, parent) = r"
  obtains "r = Inl ValueError"
  | "r = Inr []"
  | u vs where "r = Inr [\<lparr>page_url = b, urls = vs, skip_profile = False\<rparr>]"
      "guess_fullsize_variants rt u = Inr vs"
proof (cases "attr_urls rt a b ''href''")
  case (Inl e)
  with assms that(1) show ?thesis
    by (auto simp: anchor_candidate_def then_do_def dest: attr_urls_error)
next
  case (Inr us)
  show ?thesis
  proof (cases us)
    case Nil
    with assms Inr that(2) show ?thesis by (simp add: anchor_candidate_def then_do_def)
  next
    case (Cons u rest)
    show ?thesis
    proof (cases "looks_like_image_url rt u")
      case (Inl e)
      with assms Inr Cons that(1) show ?thesis
        by (auto simp: anchor_candidate_def then_do_def dest: looks_like_image_url_error)
    next
      case l: (Inr l)
      show ?thesis
      proof (cases "guess_fullsize_variants rt u")
        case (Inl e)
        with assms Inr Cons l that(1,2) show ?thesis
          by (auto simp: anchor_candidate_def then_do_def split: if_splits
                   dest: guess_fullsize_variants_error)
      next
        case g: (Inr vs)
        with assms Inr Cons l that(2,3) show ?thesis
          by (auto simp: anchor_candidate_def then_do_def split: if_splits)
      qed
    qed
  qed
qed

lemma anchor_candidate_error: "anchor_candidate rt b ap = Inl e \<Longrightarrow> e = ValueError"
  by (cases ap) (auto elim: anchor_candidate_cases)

lemma anchor_candidate_urls:
  "anchor_candidate rt b ap = Inr cs \<Longrightarrow> c \<in> set cs \<Longrightarrow> urls c \<noteq> []"
  by (cases ap) (auto elim!: anchor_candidate_cases dest: guess_fullsize_variants_shape)

lemma map_raise_all:
  assumes "map_raise f xs = Inr yss" and "\<And>x ys. f x = Inr ys \<Longrightarrow> P ys"
  shows "\<forall>ys \<in> set yss. P ys"
  using assms by (induction xs arbitrary: yss) (auto split: sum.splits)

lemma dedup_candidates_ok:
  "\<forall>c \<in> set cs. urls c \<noteq> [] \<Longrightarrow> \<exists>ds. dedup_candidates S cs = Inr ds \<and> set ds \<subseteq> set cs"
proof (induction cs arbitrary: S)
  case Nil
  then show ?case by simp
next
  case (Cons c cs)
  then obtain k ks where k: "urls c = k # ks" by (cases "urls c") auto
  from Cons obtain ds1 where d1: "dedup_candidates S cs = Inr ds1" "set ds1 \<subseteq> set cs" by force
  from Cons obtain ds2 where d2: "dedup_candidates (insert k S) cs = Inr ds2" "set ds2 \<subseteq> set cs"
    by force
  show ?case using k d1 d2 by auto
qed

lemma extract_image_candidates_urls:
  assumes "extract_image_candidates rt soup b = Inr cs" and "c \<in> set cs"
  shows "urls c \<noteq> []"
proof -
  from assms(1) obtain imgs anchors where
    i: "map_raise (img_candidate rt b) (find_all soup ''img'') = Inr imgs" and
    a: "map_raise (anchor_candidate rt b) (find_all soup ''a'') = Inr anchors" and
    d: "dedup_candidates {} (concat imgs @ concat anchors) = Inr cs"
    by (auto simp: extract_image_candidates_def then_do_Inr_iff)
  have "\<forall>ys \<in> set imgs. \<forall>c \<in> set ys. urls c \<noteq> []"
    by (rule map_raise_all [OF i]) (auto dest: img_candidate_urls)
  moreover have "\<forall>ys \<in> set anchors. \<forall>c \<in> set ys. urls c \<noteq> []"
    by (rule map_raise_all [OF a]) (auto dest: anchor_candidate_urls)
  ultimately have all: "\<forall>c \<in> set (concat imgs @ concat anchors). urls c \<noteq> []"
    by auto
  from dedup_candidates_ok [OF all, of "{}"] d have "set cs \<subseteq> set (concat imgs @ concat anchors)"
    by auto
  with all assms(2) show ?thesis by blast
qed

lemma extract_image_candidates_error:
  assumes "extract_image_candidates rt soup b = Inl e"
  shows "e \<noteq> IndexError"
proof -
  from assms consider
      "map_raise (img_candidate rt b) (find_all soup ''img'') = Inl e"
    | imgs where "map_raise (img_candidate rt b) (find_all soup ''img'') = Inr imgs"
        "map_raise (anchor_candidate rt b) (find_all soup ''a'') = Inl e"
    | imgs anchors where "map_raise (img_candidate rt b) (find_all soup ''img'') = Inr imgs"
        "map_raise (anchor_candidate rt b) (find_all soup ''a'') = Inr anchors"
        "dedup_candidates {} (concat imgs @ concat anchors) = Inl e"
    by (auto simp: extract_image_candidates_def then_do_Inl_iff)
  then show ?thesis
  proof cases
    case 1
    then show ?thesis by (auto dest!: map_raise_Inl dest: img_candidate_error)
  next
    case 2
    then show ?thesis by (auto dest!: map_raise_Inl dest: anchor_candidate_error)
  next
    case 3
    have "\<forall>ys \<in> set imgs. \<forall>c \<in> set ys. urls c \<noteq> []"
      by (rule map_raise_all [OF 3(1)]) (auto dest: img_candidate_urls)
    moreover have "\<forall>ys \<in> set anchors. \<forall>c \<in> set ys. urls c \<noteq> []"
      by (rule map_raise_all [OF 3(2)]) (auto dest: anchor_candidate_urls)
    ultimately have all: "\<forall>c \<in> set (concat imgs @ concat anchors). urls c \<noteq> []"
      by auto
    from dedup_candidates_ok [OF all, of "{}"] 3(3) show ?thesis by auto
  qed
qed


lemma guess_extension_error: "guess_extension rt u ct = Inl e \<Longrightarrow> e = ValueError"
  by (auto simp: guess_extension_def then_do_Inl_iff Let_def split: if_splits option.splits
           dest: urlparse_error)

lemma try_variants_error:
  "fst (try_variants rt cand dir dry kws st us) = Inl e \<Longrightarrow> e = ValueError"
proof (induction us arbitrary: st)
  case Nil
  then show ?case by simp
next
  case (Cons u us)
  then show ?case
    by (auto simp: Let_def
             split: if_splits option.splits sum.splits bool.splits
             dest: looks_like_image_url_error guess_extension_error urlparse_error)
qed

lemma download_image_error:
  "download_image rt cand dir dry kws st = (Inl e, st') \<Longrightarrow> e = ValueError"
  using try_variants_error [of rt cand dir dry kws st "urls cand" e]
  by (simp add: download_image_def)

lemma process_candidate_raised:
  assumes "urls cand \<noteq> []" and "raised c \<noteq> Some IndexError"
  shows "raised (process_candidate rt a d k p cand c) \<noteq> Some IndexError"
proof -
  from assms(1) obtain f r where u: "urls cand = f # r" by (cases "urls cand") auto
  show ?thesis
  proof (cases "f \<in> seen_image_urls c")
    case True
    with u assms(2) show ?thesis by (simp add: process_candidate_def)
  next
    case False
    obtain res st where d: "download_image rt cand d (dry_run a) k
        (io (c\<lparr>seen_image_urls := insert f (seen_image_urls c)\<rparr>)) = (res, st)"
      by (cases "download_image rt cand d (dry_run a) k
        (io (c\<lparr>seen_image_urls := insert f (seen_image_urls c)\<rparr>))") auto
    show ?thesis
    proof (cases res)
      case (Inl e)
      with d have "e = ValueError" by (auto dest: download_image_error)
      with u False d Inl show ?thesis by (simp add: process_candidate_def Let_def)
    next
      case (Inr out)
      with u False d assms(2) show ?thesis
        by (cases out) (simp add: process_candidate_def Let_def count_status_def)
    qed
  qed
qed

lemma process_candidates_raised:
  assumes "\<forall>cand \<in> set cs. urls cand \<noteq> []" and "raised c \<noteq> Some IndexError"
  shows "raised (process_candidates rt a d k p cs c) \<noteq> Some IndexError"
  using assms
  by (induction cs arbitrary: c) (auto simp: Let_def process_candidate_raised)

lemma link_rel_next_error: "link_rel_next rt b lp = Inl e \<Longrightarrow> e = ValueError"
  by (cases lp; cases "attr_urls rt (fst lp) b ''href''")
     (auto simp: link_rel_next_def then_do_def split: list.splits dest: attr_urls_error)

lemma anchor_links_error: "anchor_links rt fl b ap = Inl e \<Longrightarrow> e = ValueError"
  by (cases ap; cases "attr_urls rt (fst ap) b ''href''")
     (auto simp: anchor_links_def then_do_def split: list.splits dest: attr_urls_error)

lemma pager_links_error: "pager_links rt b np = Inl e \<Longrightarrow> e = ValueError"
  by (cases np)
     (auto simp: pager_links_def then_do_Inl_iff dest!: map_raise_Inl dest: attr_urls_error)

lemma discover_links_error: "discover_links rt soup b fl = Inl e \<Longrightarrow> e = ValueError"
  by (auto simp: discover_links_def then_do_Inl_iff dest!: map_raise_Inl
           dest: link_rel_next_error anchor_links_error pager_links_error)

lemma enqueue_links_raised:
  "raised c \<noteq> Some IndexError \<Longrightarrow> raised (enqueue_links rt x al ls c) \<noteq> Some IndexError"
  by (induction x al ls c rule: enqueue_links.induct)
     (auto split: sum.splits dest: host_of_error)

lemma process_page_raised:
  assumes "raised c \<noteq> Some IndexError"
  shows "raised (process_page rt a al k root p resp c) \<noteq> Some IndexError"
proof (cases "extract_image_candidates rt (html_parser rt (text_of resp)) p")
  case (Inl e)
  then show ?thesis
    by (auto simp: process_page_def Let_def dest: extract_image_candidates_error)
next
  case (Inr cs)
  then have ne: "\<forall>cand \<in> set cs. urls cand \<noteq> []"
    by (auto dest: extract_image_candidates_urls)
  show ?thesis
  proof (cases "host_of rt p")
    case (Inl e)
    with Inr show ?thesis by (auto simp: process_page_def Let_def dest: host_of_error)
  next
    case h: (Inr h)
    let ?c4 = "process_candidates rt a (path_join (path_join root (sanitize_name h)) ''images'')
                 k p cs (c\<lparr>total_pages := total_pages c + 1\<rparr>)"
    have c4: "raised ?c4 \<noteq> Some IndexError"
      using ne assms by (intro process_candidates_raised) simp_all
    have c5: "raised (enqueue_links rt x al ls ?c4) \<noteq> Some IndexError" for x ls
      using c4 by (rule enqueue_links_raised)
    show ?thesis
      using Inr h c4 c5
      by (auto simp: process_page_def Let_def split: sum.splits prod.splits
               dest: discover_links_error)
  qed
qed

lemma crawl_page_raised:
  "raised c \<noteq> Some IndexError \<Longrightarrow> raised (crawl_page rt a al k root p c) \<noteq> Some IndexError"
  by (auto simp: crawl_page_def Let_def then_do_Inl_iff process_page_raised
           split: sum.splits bool.splits option.splits if_splits dest: host_of_error)

lemma crawl_loop_raised:
  "raised c \<noteq> Some IndexError \<Longrightarrow> raised (crawl_loop rt a al k root c) \<noteq> Some IndexError"
proof (induction rt a al k root c rule: crawl_loop.induct)
  case (1 rt a al k root c)
  show ?case
  proof (cases "queue c")
    case Nil
    with 1 show ?thesis by simp
  next
    case (Cons p rest)
    show ?thesis
    proof (cases "total_pages c < max_pages a \<and> raised c = None")
      case True
      have "raised (crawl_page rt a al k root p (c\<lparr>queue := rest\<rparr>)) \<noteq> Some IndexError"
        using "1.prems" by (intro crawl_page_raised) simp
      from "1.IH" [OF Cons True this] Cons True show ?thesis by simp
    next
      case False
      with Cons 1 show ?thesis by auto
    qed
  qed
qed

lemma crawl_and_download_no_IndexError: "fst (crawl_and_download rt a) \<noteq> Inl IndexError"
proof -
  have init: "raised (initial_state us) \<noteq> Some IndexError" for us
    by (simp add: initial_state_def)
  show ?thesis
    using crawl_loop_raised [OF init]
    by (auto simp: crawl_and_download_def Let_def split: sum.splits option.splits
             dest!: map_raise_Inl dest: normalize_url_error host_of_error)
qed

section \<open>The resolver, variant by variant\<close>

lemma try_variants_skip:
  "keyword_match u kws \<Longrightarrow>
     try_variants rt cand dir dry kws st (u # us)
       = (Inr (''skipped_custom_keyword'', None, None, None), st)"
  "\<not> keyword_match u kws \<Longrightarrow> skip_profile cand \<Longrightarrow>
     try_variants rt cand dir dry kws st (u # us) = (Inr (''skipped_profile'', None, None, None), st)"
  by simp_all

lemma try_variants_next:
  assumes "\<not> keyword_match u kws" and "\<not> skip_profile cand" and "passed_over rt u"
  shows "try_variants rt cand dir dry kws st (u # us)
         = try_variants rt cand dir dry kws (st\<lparr>image_requests := image_requests st @ [u]\<rparr>) us"
proof (cases "session_get rt u")
  case None
  with assms show ?thesis by simp
next
  case (Some resp)
  let ?ct = "lower (case content_type resp of None \<Rightarrow> [] | Some c \<Rightarrow> c)"
  show ?thesis
  proof (cases "status_code resp \<ge> 400")
    case True
    with assms Some show ?thesis by simp
  next
    case ok: False
    show ?thesis
    proof (cases "\<not> str_in ''image'' ?ct \<and> looks_like_image_url rt u = Inr False")
      case True
      with assms Some ok show ?thesis by (simp add: Let_def)
    next
      case False
      with assms(3) Some ok
      have img: "(if str_in ''image'' ?ct then Inr True else looks_like_image_url rt u) = Inr True"
        and body: "content resp = [] \<or> (length (content resp) < 512 \<and> keyword_match u THUMB_HINTS)"
        by (auto simp: passed_over_def)
      from assms(1,2) Some ok img body show ?thesis
        by (simp only: try_variants.simps Let_def if_False if_True option.case sum.case bool.case)
           auto
    qed
  qed
qed

lemma try_variants_accept:
  assumes "\<not> keyword_match u kws" and "\<not> skip_profile cand" and "\<not> passed_over rt u"
  shows "\<exists>resp. session_get rt u = Some resp
           \<and> try_variants rt cand dir dry kws st (u # us)
             = accept_variant rt u dir dry (st\<lparr>image_requests := image_requests st @ [u]\<rparr>) resp"
proof -
  from assms(3) obtain resp where r: "session_get rt u = Some resp"
    by (auto simp: passed_over_def split: option.splits)
  let ?ct = "lower (case content_type resp of None \<Rightarrow> [] | Some c \<Rightarrow> c)"
  from assms(3) r have ok: "\<not> status_code resp \<ge> 400"
    and nf: "\<not> (\<not> str_in ''image'' ?ct \<and> looks_like_image_url rt u = Inr False)"
    and nb: "\<not> ((str_in ''image'' ?ct \<or> looks_like_image_url rt u = Inr True)
                \<and> (content resp = [] \<or> (length (content resp) < 512 \<and> keyword_match u THUMB_HINTS)))"
    by (simp_all add: passed_over_def)
  show ?thesis
  proof (cases "if str_in ''image'' ?ct then Inr True else looks_like_image_url rt u")
    case (Inl e)
    with assms(1,2) r ok have
      "try_variants rt cand dir dry kws st (u # us)
       = accept_variant rt u dir dry (st\<lparr>image_requests := image_requests st @ [u]\<rparr>) resp"
      by (simp add: accept_variant_def Let_def)
    with r show ?thesis by blast
  next
    case (Inr b)
    with nf have b: "b" by (auto split: if_splits)
    with Inr nb have body: "content resp \<noteq> []"
        "\<not> (length (content resp) < 512 \<and> keyword_match u THUMB_HINTS)"
      by (auto split: if_splits)
    from assms(1,2) r ok Inr b body have
      "try_variants rt cand dir dry kws st (u # us)
       = accept_variant rt u dir dry (st\<lparr>image_requests := image_requests st @ [u]\<rparr>) resp"
      by (cases "length (content resp) < 512")
         (simp_all add: accept_variant_def Let_def split: sum.split)
    with r show ?thesis by blast
  qed
qed


declare try_variants.simps(2) [simp del]

lemma outcome_ok_requests:
  "outcome_ok (st\<lparr>image_requests := r\<rparr>) dry out st' = outcome_ok st dry out st'"
  by (simp add: outcome_ok_def)

text \<open>The shapes of what \<open>accept_variant\<close> returns.\<close>

lemma accept_variant_shape:
  assumes "accept_variant rt u dir dry st1 resp = (Inr out, st')"
  obtains (dup) "sha256_hexdigest rt (content resp) \<in> seen_hashes st1"
      "out = (''duplicate'', None, Some (length (content resp)),
              Some (sha256_hexdigest rt (content resp)))"
      "st' = st1"
  | (would) "sha256_hexdigest rt (content resp) \<notin> seen_hashes st1" "dry"
      "out = (''would_download'', None, Some (length (content resp)),
              Some (sha256_hexdigest rt (content resp)))"
      "st' = st1\<lparr>seen_hashes := insert (sha256_hexdigest rt (content resp)) (seen_hashes st1)\<rparr>"
  | (down) path where "sha256_hexdigest rt (content resp) \<notin> seen_hashes st1" "\<not> dry"
      "out = (''downloaded'', Some path, Some (length (content resp)),
              Some (sha256_hexdigest rt (content resp)))"
      "st' = st1\<lparr>written := written st1 @ [(path, content resp)],
                 seen_hashes := insert (sha256_hexdigest rt (content resp)) (seen_hashes st1)\<rparr>"
proof -
  let ?ct = "lower (case content_type resp of None \<Rightarrow> [] | Some c \<Rightarrow> c)"
  let ?d = "sha256_hexdigest rt (content resp)"
  obtain b where x: "(if str_in ''image'' ?ct then Inr True else looks_like_image_url rt u) = Inr b"
    using assms
    by (cases "if str_in ''image'' ?ct then Inr True else looks_like_image_url rt u")
       (simp_all add: accept_variant_def Let_def)
  show ?thesis
  proof (cases "?d \<in> seen_hashes st1")
    case True
    with assms x have "out = (''duplicate'', None, Some (length (content resp)), Some ?d)" "st' = st1"
      by (simp_all add: accept_variant_def Let_def)
    with True show ?thesis by (rule dup)
  next
    case nd: False
    show ?thesis
    proof (cases dry)
      case True
      with assms x nd have "out = (''would_download'', None, Some (length (content resp)), Some ?d)"
          "st' = st1\<lparr>seen_hashes := insert ?d (seen_hashes st1)\<rparr>"
        by (simp_all add: accept_variant_def Let_def)
      with nd True show ?thesis by (rule would)
    next
      case nodry: False
      obtain ext where e: "guess_extension rt u ?ct = Inr ext"
        using assms x nd nodry
        by (cases "guess_extension rt u ?ct") (simp_all add: accept_variant_def Let_def)
      obtain parsed where q: "urlparse rt u = Inr parsed"
        using assms x nd nodry e
        by (cases "urlparse rt u") (simp_all add: accept_variant_def Let_def)
      let ?stem0 = "path_stem rt (path parsed)"
      let ?path = "path_join dir (sanitize_name (if ?stem0 = [] then ''image'' else ?stem0)
                                   @ ''_'' @ take 12 ?d @ ext)"
      from assms x nd nodry e q
      have "out = (''downloaded'', Some ?path, Some (length (content resp)), Some ?d)"
           "st' = st1\<lparr>written := written st1 @ [(?path, content resp)],
                      seen_hashes := insert ?d (seen_hashes st1)\<rparr>"
        by (simp_all add: accept_variant_def Let_def)
      with nd nodry show ?thesis by (rule down)
    qed
  qed
qed

lemma accept_variant_cases:
  assumes "accept_variant rt u dir dry st1 resp = (Inr out, st')"
  shows "outcome_ok st1 dry out st'"
  using assms
proof (cases rule: accept_variant_shape)
  case dup
  then show ?thesis by (simp add: outcome_ok_def)
next
  case would
  then show ?thesis by (simp add: outcome_ok_def)
next
  case (down path)
  then show ?thesis by (simp add: outcome_ok_def)
qed

lemma accept_variant_digest:
  assumes "accept_variant rt u dir dry st1 resp = (Inr (s, p, n, dg), st')"
  shows "dg = Some (sha256_hexdigest rt (content resp))"
  using assms by (cases rule: accept_variant_shape) simp_all

lemma try_variants_cases:
  "try_variants rt cand dir dry kws st us = (Inr out, st') \<Longrightarrow> outcome_ok st dry out st'"
proof (induction us arbitrary: st)
  case Nil
  then show ?case by (auto simp: outcome_ok_def)
next
  case (Cons u us)
  let ?st1 = "st\<lparr>image_requests := image_requests st @ [u]\<rparr>"
  consider (kw) "keyword_match u kws"
    | (prof) "\<not> keyword_match u kws" "skip_profile cand"
    | (nxt) "\<not> keyword_match u kws" "\<not> skip_profile cand" "passed_over rt u"
    | (acc) "\<not> keyword_match u kws" "\<not> skip_profile cand" "\<not> passed_over rt u"
    by blast
  then show ?case
  proof cases
    case kw
    from try_variants_skip(1) [OF kw, of rt cand dir dry st us] Cons.prems
    have "out = (''skipped_custom_keyword'', None, None, None)" "st' = st" by simp_all
    then show ?thesis by (simp add: outcome_ok_def)
  next
    case prof
    from try_variants_skip(2) [OF prof, of rt dir dry st us] Cons.prems
    have "out = (''skipped_profile'', None, None, None)" "st' = st" by simp_all
    then show ?thesis by (simp add: outcome_ok_def)
  next
    case nxt
    from try_variants_next [OF nxt, of dir dry st us] Cons.prems
    have "try_variants rt cand dir dry kws ?st1 us = (Inr out, st')" by simp
    from Cons.IH [OF this] show ?thesis by (simp only: outcome_ok_requests)
  next
    case acc
    from try_variants_accept [OF acc, of dir dry st us] obtain resp
      where "try_variants rt cand dir dry kws st (u # us) = accept_variant rt u dir dry ?st1 resp"
      by blast
    with Cons.prems have "accept_variant rt u dir dry ?st1 resp = (Inr out, st')" by simp
    from accept_variant_cases [OF this] show ?thesis by (simp only: outcome_ok_requests)
  qed
qed


lemma accept_variant_total:
  assumes "urlparse rt u = Inr q"
  shows "\<exists>s p n dg st'. accept_variant rt u dir dry st1 resp = (Inr (s, p, n, dg), st')
           \<and> s \<in> set outcome_statuses"
proof -
  from assms obtain b where b: "looks_like_image_url rt u = Inr b"
    by (simp add: looks_like_image_url_def then_do_def)
  have "\<exists>e. guess_extension rt u ct = Inr e" for ct
    using assms by (auto simp: guess_extension_def then_do_def Let_def split: option.split)
  then obtain e where e:
    "guess_extension rt u (lower (case content_type resp of None \<Rightarrow> [] | Some c \<Rightarrow> c)) = Inr e"
    by blast
  show ?thesis
    using assms b e by (simp add: accept_variant_def Let_def outcome_statuses_def)
qed

lemma try_variants_total:
  assumes "\<forall>u \<in> set us. \<exists>q. urlparse rt u = Inr q"
  shows "\<exists>s p n d st'. try_variants rt cand dir dry kws st us = (Inr (s, p, n, d), st')
           \<and> s \<in> set outcome_statuses"
  using assms
proof (induction us arbitrary: st)
  case Nil
  then show ?case by (simp add: outcome_statuses_def)
next
  case (Cons u us)
  then obtain q where q: "urlparse rt u = Inr q" by auto
  let ?st1 = "st\<lparr>image_requests := image_requests st @ [u]\<rparr>"
  consider (kw) "keyword_match u kws"
    | (prof) "\<not> keyword_match u kws" "skip_profile cand"
    | (nxt) "\<not> keyword_match u kws" "\<not> skip_profile cand" "passed_over rt u"
    | (acc) "\<not> keyword_match u kws" "\<not> skip_profile cand" "\<not> passed_over rt u"
    by blast
  then show ?case
  proof cases
    case kw
    from try_variants_skip(1) [OF kw, of rt cand dir dry st us]
    show ?thesis by (simp add: outcome_statuses_def)
  next
    case prof
    from try_variants_skip(2) [OF prof, of rt dir dry st us]
    show ?thesis by (simp add: outcome_statuses_def)
  next
    case nxt
    from Cons have "\<exists>s p n d st'. try_variants rt cand dir dry kws ?st1 us = (Inr (s, p, n, d), st')
           \<and> s \<in> set outcome_statuses" by simp
    moreover have "try_variants rt cand dir dry kws st (u # us)
          = try_variants rt cand dir dry kws ?st1 us"
      by (rule try_variants_next [OF nxt])
    ultimately show ?thesis by simp
  next
    case acc
    from try_variants_accept [OF acc, of dir dry st us] obtain resp
      where "try_variants rt cand dir dry kws st (u # us) = accept_variant rt u dir dry ?st1 resp"
      by auto
    with accept_variant_total [OF q, of dir dry ?st1 resp] show ?thesis by simp
  qed
qed

lemma try_variants_candidate:
  "skip_profile c1 = skip_profile c2 \<Longrightarrow>
   try_variants rt c1 dir dry kws st us = try_variants rt c2 dir dry kws st us"
  by (induction us arbitrary: st)
     (simp_all add: try_variants.simps(2) Let_def
               cong: option.case_cong sum.case_cong bool.case_cong if_cong)

lemma accept_variant_raises:
  assumes "accept_variant rt u dir dry st1 resp = (Inl e, st')"
  shows "e = ValueError \<and> urlparse rt u = Inl ValueError \<and> st' = st1"
proof -
  have p: "urlparse rt u = Inl ValueError"
  proof (cases "urlparse rt u")
    case (Inl x)
    with urlparse_error [of rt u x] show ?thesis by simp
  next
    case (Inr q)
    from accept_variant_total [OF Inr, of dir dry st1 resp] assms show ?thesis by auto
  qed
  let ?ct = "lower (case content_type resp of None \<Rightarrow> [] | Some c \<Rightarrow> c)"
  from p have l: "looks_like_image_url rt u = Inl ValueError"
    by (simp add: looks_like_image_url_def then_do_def)
  from p have g: "guess_extension rt u ?ct = Inl ValueError"
    by (simp add: guess_extension_def then_do_def)
  from assms l g p have "e = ValueError \<and> st' = st1"
    by (cases "str_in ''image'' ?ct"; cases "sha256_hexdigest rt (content resp) \<in> seen_hashes st1";
        cases dry) (simp_all add: accept_variant_def Let_def)
  with p show ?thesis by simp
qed

lemma try_variants_raises:
  "try_variants rt cand dir dry kws st us = (Inl e, st') \<Longrightarrow>
     e = ValueError \<and> seen_hashes st' = seen_hashes st \<and> written st' = written st
     \<and> (\<exists>u \<in> set us. session_get rt u \<noteq> None \<and> urlparse rt u = Inl ValueError)"
proof (induction us arbitrary: st)
  case Nil
  then show ?case by simp
next
  case (Cons u us)
  let ?st1 = "st\<lparr>image_requests := image_requests st @ [u]\<rparr>"
  consider (kw) "keyword_match u kws"
    | (prof) "\<not> keyword_match u kws" "skip_profile cand"
    | (nxt) "\<not> keyword_match u kws" "\<not> skip_profile cand" "passed_over rt u"
    | (acc) "\<not> keyword_match u kws" "\<not> skip_profile cand" "\<not> passed_over rt u"
    by blast
  then show ?case
  proof cases
    case kw
    from try_variants_skip(1) [OF kw, of rt cand dir dry st us] Cons.prems
    show ?thesis by simp
  next
    case prof
    from try_variants_skip(2) [OF prof, of rt dir dry st us] Cons.prems
    show ?thesis by simp
  next
    case nxt
    from try_variants_next [OF nxt, of dir dry st us] Cons.prems
    have "try_variants rt cand dir dry kws ?st1 us = (Inl e, st')" by simp
    from Cons.IH [OF this] show ?thesis by simp
  next
    case acc
    from try_variants_accept [OF acc, of dir dry st us] obtain resp
      where r: "session_get rt u = Some resp"
        and "try_variants rt cand dir dry kws st (u # us) = accept_variant rt u dir dry ?st1 resp"
      by blast
    with Cons.prems have "accept_variant rt u dir dry ?st1 resp = (Inl e, st')" by simp
    from accept_variant_raises [OF this] r show ?thesis by simp
  qed
qed

lemma try_variants_exhausted:
  "\<not> skip_profile cand \<Longrightarrow> \<forall>u \<in> set us. \<not> keyword_match u kws \<and> passed_over rt u \<Longrightarrow>
     try_variants rt cand dir dry kws st us
       = (Inr (''failed_all_variants'', None, None, None),
          st\<lparr>image_requests := image_requests st @ us\<rparr>)"
proof (induction us arbitrary: st)
  case Nil
  then show ?case by simp
next
  case (Cons u us)
  let ?st1 = "st\<lparr>image_requests := image_requests st @ [u]\<rparr>"
  from Cons.prems have nxt: "\<not> keyword_match u kws" "\<not> skip_profile cand" "passed_over rt u"
    by simp_all
  from Cons.prems have "\<forall>u \<in> set us. \<not> keyword_match u kws \<and> passed_over rt u" by simp
  from Cons.IH [OF Cons.prems(1) this, of ?st1] try_variants_next [OF nxt, of dir dry st us]
  show ?case by simp
qed

lemma accept_variant_decides:
  assumes "accept_variant rt u dir dry st1 resp = (Inr (s, p, n, dg), st')"
  shows "(s = ''duplicate'' \<or> s = ''would_download'' \<or> s = ''downloaded'')
         \<and> image_requests st' = image_requests st1"
  using assms by (cases rule: accept_variant_shape) simp_all




section \<open>Example inputs\<close>

text \<open>
  A small site. Page 1 of \<open>a.com\<close> shows a thumbnail whose full-size file is found by
  stripping \<open>-thumb\<close>, an image served by another host, and a \<open>rel=next\<close> link to the
  page itself. The runtime visits a set in the order of insertion; its path functions
  split a file name at its last dot and its digest is a stand-in.
\<close>

definition body_x :: bytes where
  "body_x = replicate 600 (CHR ''x'')"

definition body_y :: bytes where
  "body_y = replicate 600 (CHR ''y'')"

definition ok_response :: "string \<Rightarrow> bytes \<Rightarrow> response" where
  "ok_response ctype b = \<lparr>status_code = 200, content_type = Some ctype, content = b, text_of = []\<rparr>"

definition not_found :: response where
  "not_found = \<lparr>status_code = 404, content_type = None, content = [], text_of = []\<rparr>"

definition page_cat :: element where
  "page_cat =
     Tag ''[document]'' []
       [Tag ''html'' []
          [Tag ''img'' [(''src'', AStr ''/img/cat-thumb.jpg'')] [],
           Tag ''img'' [(''src'', AStr ''http://cdn.other.org/x.png'')] [],
           Tag ''a'' [(''href'', AStr ''/page1''), (''rel'', AList [''next''])]
             [NavigableString ''Next'']]]"

definition file_name :: "string \<Rightarrow> string" where
  "file_name p = rev (takeWhile (\<lambda>c. c \<noteq> CHR ''/'') (rev p))"

definition example_suffix :: "string \<Rightarrow> string" where
  "example_suffix p =
     (if CHR ''.'' \<in> set (file_name p)
      then CHR ''.'' # rev (takeWhile (\<lambda>c. c \<noteq> CHR ''.'') (rev (file_name p)))
      else [])"

definition example_stem :: "string \<Rightarrow> string" where
  "example_stem p = take (length (file_name p) - length (example_suffix p)) (file_name p)"

definition cat_site :: "string \<Rightarrow> response option" where
  "cat_site u =
     (if u = ''http://a.com/page1''
      then Some \<lparr>status_code = 200, content_type = Some ''text/html'', content = [],
                 text_of = ''page 1''\<rparr>
      else if u = ''http://a.com/img/cat-thumb.jpg'' then Some not_found
      else if u = ''http://a.com/img/cat.jpg'' then Some (ok_response ''image/jpeg'' body_x)
      else if u = ''http://b.org/copy.jpg'' then Some (ok_response ''image/jpeg'' body_x)
      else if u = ''http://cdn.other.org/x.png'' then Some (ok_response ''image/png'' body_y)
      else None)"

definition rt_cat :: runtime where
  "rt_cat =
     \<lparr>bracketed_host_ok = (\<lambda>h. True), netloc_nfkc_ok = (\<lambda>n. True),
      set_iter = dedup_first {}, int_float_1000 = (\<lambda>s. Float_ValueError),
      session_get = cat_site,
      sha256_hexdigest = (\<lambda>d. take 16 d @ ''0123456789abcdef''),
      html_parser = (\<lambda>t. page_cat),
      path_suffix = example_suffix, path_stem = example_stem,
      mimetypes_guess_extension = (\<lambda>s. None), path_resolve = (\<lambda>p. ''/'' @ p)\<rparr>"

definition args_one_page :: args where
  "args_one_page =
     \<lparr>start_urls = [''http://a.com/page1''], output_arg = ''out'', max_pages = 10,
      allow_cross_domain = False, no_follow_content_links = False, dry_run = False,
      skip_url_keyword = []\<rparr>"

definition empty_store :: store where
  "empty_store = \<lparr>seen_hashes = {}, written = [], image_requests = []\<rparr>"

text \<open>The first candidate of page 1, a candidate of another site whose file has the same
  bytes, and a server that answers a URL with a bracket in its user-info part, which
  \<open>urlparse\<close> refuses.\<close>

definition cat_candidate :: ImageCandidate where
  "cat_candidate =
     \<lparr>page_url = ''http://a.com/page1'',
      urls = [''http://a.com/img/cat-thumb.jpg'', ''http://a.com/img/cat.jpg''],
      skip_profile = False\<rparr>"


definition userinfo_site :: "string \<Rightarrow> response option" where
  "userinfo_site u =
     (if u = ''http://u[@a.com/x.jpg'' then Some (ok_response ''image/jpeg'' body_x) else None)"

section \<open>The claims\<close>

text \<open>
  C2, as stated: for every ImageCandidate the Dedup and Fetch Resolver returns one of the six
  outcomes. It does not when the server answers a variant URL that \<open>urlparse\<close> refuses:
  \<open>http://u[@a.com/x.jpg\<close> is answered with an image, and \<open>guess_extension\<close> then raises the
  \<open>ValueError\<close> of \<open>urlparse\<close>, which \<open>download_image\<close> does not catch.
\<close>

theorem resolver_raises_when_answered_url_is_refused_by_urlparse:
  "fst (download_image (rt_cat\<lparr>session_get := userinfo_site\<rparr>)
          \<lparr>page_url = ''http://a.com/page1'', urls = [''http://u[@a.com/x.jpg''],
            skip_profile = False\<rparr>
          ''out'' False [] empty_store)
   = Inl ValueError"
  by code_simp

text \<open>
  C2, amended. For every ImageCandidate, store and configuration, \<open>download_image\<close> either
  returns one outcome whose status is one of the six, or raises \<open>ValueError\<close>, and then the
  server has answered a variant URL that \<open>urlparse\<close> refuses; it returns an outcome whenever
  \<open>urlparse\<close> accepts every variant URL. The variants are tried in list order: an empty list
  gives \<open>failed_all_variants\<close>; a first variant that matches a skip keyword gives
  \<open>skipped_custom_keyword\<close> with nothing fetched and no other variant tried; otherwise a
  profile-flagged candidate gives \<open>skipped_profile\<close> with nothing fetched; otherwise a variant
  that is passed over (fetch failure, status 400 or more, no image, empty body, small body
  with a thumbnail hint) is recorded as requested and the run continues as the run on the
  remaining variants; otherwise the decision is taken at this variant (\<open>duplicate\<close>,
  \<open>would_download\<close> or \<open>downloaded\<close>, or the \<open>ValueError\<close>) and no later variant is requested.
  When every variant is passed over, the result is \<open>failed_all_variants\<close> after one request
  for each variant, in order.
\<close>

theorem download_image_decides_in_order:
  "((\<exists>s p n d st'. download_image rt cand dir dry kws st = (Inr (s, p, n, d), st')
        \<and> s \<in> set outcome_statuses)
    \<or> (\<exists>st'. download_image rt cand dir dry kws st = (Inl ValueError, st')
          \<and> (\<exists>u \<in> set (urls cand). session_get rt u \<noteq> None \<and> urlparse rt u = Inl ValueError)))
   \<and> ((\<forall>u \<in> set (urls cand). \<exists>q. urlparse rt u = Inr q)
        \<longrightarrow> (\<exists>s p n d st'. download_image rt cand dir dry kws st = (Inr (s, p, n, d), st')
               \<and> s \<in> set outcome_statuses))
   \<and> (urls cand = []
        \<longrightarrow> download_image rt cand dir dry kws st
            = (Inr (''failed_all_variants'', None, None, None), st))
   \<and> (\<forall>u rest. urls cand = u # rest \<longrightarrow>
         (keyword_match u kws
            \<longrightarrow> download_image rt cand dir dry kws st
                = (Inr (''skipped_custom_keyword'', None, None, None), st))
       \<and> (\<not> keyword_match u kws \<and> skip_profile cand
            \<longrightarrow> download_image rt cand dir dry kws st
                = (Inr (''skipped_profile'', None, None, None), st))
       \<and> (\<not> keyword_match u kws \<and> \<not> skip_profile cand \<and> passed_over rt u
            \<longrightarrow> download_image rt cand dir dry kws st
                = download_image rt (cand\<lparr>urls := rest\<rparr>) dir dry kws
                    (st\<lparr>image_requests := image_requests st @ [u]\<rparr>))
       \<and> (\<not> keyword_match u kws \<and> \<not> skip_profile cand \<and> \<not> passed_over rt u
            \<longrightarrow> (\<exists>s p n d st'. download_image rt cand dir dry kws st = (Inr (s, p, n, Some d), st')
                     \<and> (s = ''duplicate'' \<or> s = ''would_download'' \<or> s = ''downloaded'')
                     \<and> image_requests st' = image_requests st @ [u])
                \<or> download_image rt cand dir dry kws st
                   = (Inl ValueError, st\<lparr>image_requests := image_requests st @ [u]\<rparr>)))
   \<and> (\<not> skip_profile cand \<and> (\<forall>u \<in> set (urls cand). \<not> keyword_match u kws \<and> passed_over rt u)
        \<longrightarrow> download_image rt cand dir dry kws st
            = (Inr (''failed_all_variants'', None, None, None),
               st\<lparr>image_requests := image_requests st @ urls cand\<rparr>))"
proof -
  let ?run = "download_image rt cand dir dry kws st"
  have total: "(\<exists>s p n d st'. ?run = (Inr (s, p, n, d), st') \<and> s \<in> set outcome_statuses)
    \<or> (\<exists>st'. ?run = (Inl ValueError, st')
          \<and> (\<exists>u \<in> set (urls cand). session_get rt u \<noteq> None \<and> urlparse rt u = Inl ValueError))"
  proof (cases ?run)
    case (Pair r st')
    show ?thesis
    proof (cases r)
      case (Inl e)
      with Pair have "try_variants rt cand dir dry kws st (urls cand) = (Inl e, st')"
        by (simp add: download_image_def)
      from try_variants_raises [OF this] Pair Inl show ?thesis by simp
    next
      case (Inr out)
      obtain s p n d where out: "out = (s, p, n, d)" by (cases out) auto
      with Pair Inr have "try_variants rt cand dir dry kws st (urls cand) = (Inr (s, p, n, d), st')"
        by (simp add: download_image_def)
      from try_variants_cases [OF this] have "s \<in> set outcome_statuses"
        by (auto simp: outcome_ok_def outcome_statuses_def)
      with Pair Inr out show ?thesis by simp
    qed
  qed
  have parsed: "(\<forall>u \<in> set (urls cand). \<exists>q. urlparse rt u = Inr q)
        \<longrightarrow> (\<exists>s p n d st'. ?run = (Inr (s, p, n, d), st') \<and> s \<in> set outcome_statuses)"
    using try_variants_total [of "urls cand" rt cand dir dry kws st]
    by (simp add: download_image_def)
  have none: "urls cand = [] \<longrightarrow> ?run = (Inr (''failed_all_variants'', None, None, None), st)"
    by (simp add: download_image_def)
  have step: "\<forall>u rest. urls cand = u # rest \<longrightarrow>
         (keyword_match u kws
            \<longrightarrow> ?run = (Inr (''skipped_custom_keyword'', None, None, None), st))
       \<and> (\<not> keyword_match u kws \<and> skip_profile cand
            \<longrightarrow> ?run = (Inr (''skipped_profile'', None, None, None), st))
       \<and> (\<not> keyword_match u kws \<and> \<not> skip_profile cand \<and> passed_over rt u
            \<longrightarrow> ?run = download_image rt (cand\<lparr>urls := rest\<rparr>) dir dry kws
                    (st\<lparr>image_requests := image_requests st @ [u]\<rparr>))
       \<and> (\<not> keyword_match u kws \<and> \<not> skip_profile cand \<and> \<not> passed_over rt u
            \<longrightarrow> (\<exists>s p n d st'. ?run = (Inr (s, p, n, Some d), st')
                     \<and> (s = ''duplicate'' \<or> s = ''would_download'' \<or> s = ''downloaded'')
                     \<and> image_requests st' = image_requests st @ [u])
                \<or> ?run = (Inl ValueError, st\<lparr>image_requests := image_requests st @ [u]\<rparr>))"
  proof (intro allI impI conjI)
    fix u rest
    assume u: "urls cand = u # rest"
    {
      assume "keyword_match u kws"
      from try_variants_skip(1) [OF this, of rt cand dir dry st rest] u
      show "?run = (Inr (''skipped_custom_keyword'', None, None, None), st)"
        by (simp add: download_image_def)
    next
      assume "\<not> keyword_match u kws \<and> skip_profile cand"
      then have "\<not> keyword_match u kws" "skip_profile cand" by simp_all
      from try_variants_skip(2) [OF this, of rt dir dry st rest] u
      show "?run = (Inr (''skipped_profile'', None, None, None), st)"
        by (simp add: download_image_def)
    next
      assume "\<not> keyword_match u kws \<and> \<not> skip_profile cand \<and> passed_over rt u"
      then have a: "\<not> keyword_match u kws" "\<not> skip_profile cand" "passed_over rt u" by simp_all
      have "try_variants rt cand dir dry kws (st\<lparr>image_requests := image_requests st @ [u]\<rparr>) rest
            = try_variants rt (cand\<lparr>urls := rest\<rparr>) dir dry kws
                (st\<lparr>image_requests := image_requests st @ [u]\<rparr>) rest"
        by (rule try_variants_candidate) simp
      with try_variants_next [OF a, of dir dry st rest] u
      show "?run = download_image rt (cand\<lparr>urls := rest\<rparr>) dir dry kws
                    (st\<lparr>image_requests := image_requests st @ [u]\<rparr>)"
        by (simp add: download_image_def)
    next
      assume "\<not> keyword_match u kws \<and> \<not> skip_profile cand \<and> \<not> passed_over rt u"
      then have a: "\<not> keyword_match u kws" "\<not> skip_profile cand" "\<not> passed_over rt u"
        by simp_all
      let ?st1 = "st\<lparr>image_requests := image_requests st @ [u]\<rparr>"
      from try_variants_accept [OF a, of dir dry st rest] u obtain resp
        where run: "?run = accept_variant rt u dir dry ?st1 resp"
        by (auto simp: download_image_def)
      show "(\<exists>s p n d st'. ?run = (Inr (s, p, n, Some d), st')
                     \<and> (s = ''duplicate'' \<or> s = ''would_download'' \<or> s = ''downloaded'')
                     \<and> image_requests st' = image_requests st @ [u])
                \<or> ?run = (Inl ValueError, ?st1)"
      proof (cases "accept_variant rt u dir dry ?st1 resp")
        case (Pair r st')
        show ?thesis
        proof (cases r)
          case (Inl e)
          with Pair accept_variant_raises [of rt u dir dry ?st1 resp e st'] run
          show ?thesis by simp
        next
          case (Inr out)
          obtain s p n dg where out: "out = (s, p, n, dg)" by (cases out) auto
          with Pair Inr have av: "accept_variant rt u dir dry ?st1 resp = (Inr (s, p, n, dg), st')"
            by simp
          from accept_variant_digest [OF av] accept_variant_decides [OF av] av run
          show ?thesis by simp
        qed
      qed
    }
  qed
  have exhausted: "\<not> skip_profile cand
          \<and> (\<forall>u \<in> set (urls cand). \<not> keyword_match u kws \<and> passed_over rt u)
        \<longrightarrow> ?run = (Inr (''failed_all_variants'', None, None, None),
               st\<lparr>image_requests := image_requests st @ urls cand\<rparr>)"
    using try_variants_exhausted [of cand "urls cand" kws rt dir dry st]
    by (simp add: download_image_def)
  from total parsed none step exhausted show ?thesis by blast
qed

theorem download_image_decides_in_order_witness:
  "urls cat_candidate = ''http://a.com/img/cat-thumb.jpg'' # [''http://a.com/img/cat.jpg'']
   \<and> \<not> keyword_match ''http://a.com/img/cat-thumb.jpg'' []
   \<and> \<not> skip_profile cat_candidate
   \<and> passed_over rt_cat ''http://a.com/img/cat-thumb.jpg''
   \<and> \<not> passed_over rt_cat ''http://a.com/img/cat.jpg''
   \<and> urlparse rt_cat ''http://a.com/img/cat-thumb.jpg''
       = Inr \<lparr>scheme = ''http'', netloc = ''a.com'', path = ''/img/cat-thumb.jpg'',
              params = [], query = [], fragment = []\<rparr>
   \<and> urlparse rt_cat ''http://a.com/img/cat.jpg''
       = Inr \<lparr>scheme = ''http'', netloc = ''a.com'', path = ''/img/cat.jpg'',
              params = [], query = [], fragment = []\<rparr>
   \<and> download_image rt_cat cat_candidate ''out'' False [] empty_store
       = download_image rt_cat (cat_candidate\<lparr>urls := [''http://a.com/img/cat.jpg'']\<rparr>) ''out'' False []
           (empty_store\<lparr>image_requests := image_requests empty_store
                                              @ [''http://a.com/img/cat-thumb.jpg'']\<rparr>)
   \<and> fst (download_image rt_cat cat_candidate ''out'' False [] empty_store)
       = Inr (''downloaded'', Some ''out/cat_xxxxxxxxxxxx.jpg'', Some 600,
              Some ''xxxxxxxxxxxxxxxx0123456789abcdef'')
   \<and> image_requests (snd (download_image rt_cat cat_candidate ''out'' False [] empty_store))
       = [''http://a.com/img/cat-thumb.jpg'', ''http://a.com/img/cat.jpg'']
   \<and> (\<exists>s p n d st'. download_image rt_cat cat_candidate ''out'' False [] empty_store
                       = (Inr (s, p, n, d), st') \<and> s \<in> set outcome_statuses)"
proof -
  have u: "urls cat_candidate
           = ''http://a.com/img/cat-thumb.jpg'' # [''http://a.com/img/cat.jpg'']"
    by (simp add: cat_candidate_def)
  have k: "\<not> keyword_match ''http://a.com/img/cat-thumb.jpg'' []" by code_simp
  have s: "\<not> skip_profile cat_candidate" by (simp add: cat_candidate_def)
  have p: "passed_over rt_cat ''http://a.com/img/cat-thumb.jpg''" by code_simp
  have np: "\<not> passed_over rt_cat ''http://a.com/img/cat.jpg''" by code_simp
  have q1: "urlparse rt_cat ''http://a.com/img/cat-thumb.jpg''
            = Inr \<lparr>scheme = ''http'', netloc = ''a.com'', path = ''/img/cat-thumb.jpg'',
                   params = [], query = [], fragment = []\<rparr>" by code_simp
  have q2: "urlparse rt_cat ''http://a.com/img/cat.jpg''
            = Inr \<lparr>scheme = ''http'', netloc = ''a.com'', path = ''/img/cat.jpg'',
                   params = [], query = [], fragment = []\<rparr>" by code_simp
  from q1 q2 have q: "\<forall>u \<in> set (urls cat_candidate). \<exists>q. urlparse rt_cat u = Inr q"
    by (simp add: cat_candidate_def)
  have r: "fst (download_image rt_cat cat_candidate ''out'' False [] empty_store)
       = Inr (''downloaded'', Some ''out/cat_xxxxxxxxxxxx.jpg'', Some 600,
              Some ''xxxxxxxxxxxxxxxx0123456789abcdef'')" by code_simp
  have i: "image_requests (snd (download_image rt_cat cat_candidate ''out'' False [] empty_store))
       = [''http://a.com/img/cat-thumb.jpg'', ''http://a.com/img/cat.jpg'']" by code_simp
  note t = download_image_decides_in_order
             [of rt_cat cat_candidate "''out''" False "[]" empty_store]
  note step = t [THEN conjunct2, THEN conjunct2, THEN conjunct2, THEN conjunct1,
                 THEN spec, THEN spec, THEN mp, OF u]
  from k s p have "\<not> keyword_match ''http://a.com/img/cat-thumb.jpg'' [] \<and> \<not> skip_profile cat_candidate
                   \<and> passed_over rt_cat ''http://a.com/img/cat-thumb.jpg''"
    by (intro conjI)
  note adv = step [THEN conjunct2, THEN conjunct2, THEN conjunct1, THEN mp, OF this]
  note tot = t [THEN conjunct2, THEN conjunct1, THEN mp, OF q]
  from u k s p np q1 q2 adv r i tot show ?thesis by (intro conjI)
qed




text \<open>
  C10, as stated: for every input URL the Variant Resolver returns a non-empty list.
  It does not at \<open>http://[/a.jpg\<close>: \<open>urlparse\<close> raises \<open>ValueError\<close> on the unmatched
  bracket, and the resolver with it.
\<close>

theorem variants_raise_on_unmatched_bracket:
  "guess_fullsize_variants rt_cat ''http://[/a.jpg'' = Inl ValueError"
  by code_simp

text \<open>
  C10, amended. For every input URL that \<open>urlparse\<close> accepts, the Variant Resolver returns
  a list that starts with the input URL and has no duplicates, so it is not empty; on any
  other input it raises the \<open>ValueError\<close> of \<open>urlparse\<close>. Every candidate the Candidate
  Extractor returns has a non-empty variant list, the first-element access of its
  page-level de-duplication never raises \<open>IndexError\<close>, and no crawl ends with an
  \<open>IndexError\<close>, so the first-element access of the crawl loop never fails either.
\<close>

theorem variants_start_with_input_and_candidates_nonempty:
  assumes "urlparse rt url = Inr p"
  shows "(\<exists>rest. guess_fullsize_variants rt url = Inr (url # rest) \<and> distinct (url # rest))
         \<and> (\<forall>u e. urlparse rt u = Inl e \<longrightarrow> guess_fullsize_variants rt u = Inl ValueError)
         \<and> (\<forall>cs. extract_image_candidates rt soup base = Inr cs \<longrightarrow> (\<forall>c \<in> set cs. urls c \<noteq> []))
         \<and> extract_image_candidates rt soup base \<noteq> Inl IndexError
         \<and> fst (crawl_and_download rt a) \<noteq> Inl IndexError"
proof -
  from guess_fullsize_variants_total [OF assms] obtain vs
    where vs: "guess_fullsize_variants rt url = Inr vs" by blast
  from guess_fullsize_variants_shape [OF vs] vs
  have "\<exists>rest. guess_fullsize_variants rt url = Inr (url # rest) \<and> distinct (url # rest)"
    by auto
  moreover have "\<forall>u e. urlparse rt u = Inl e \<longrightarrow> guess_fullsize_variants rt u = Inl ValueError"
    by (auto simp: guess_fullsize_variants_def strip_thumbnail_query_params_def then_do_def
             dest: urlparse_error)
  moreover have "\<forall>cs. extract_image_candidates rt soup base = Inr cs
                   \<longrightarrow> (\<forall>c \<in> set cs. urls c \<noteq> [])"
    by (auto dest: extract_image_candidates_urls)
  moreover have "extract_image_candidates rt soup base \<noteq> Inl IndexError"
    by (auto dest: extract_image_candidates_error)
  ultimately show ?thesis
    using crawl_and_download_no_IndexError [of rt a] by blast
qed

theorem variants_start_with_input_and_candidates_nonempty_witness:
  "urlparse rt_cat ''http://a.com/img/cat-thumb.jpg''
     = Inr \<lparr>scheme = ''http'', netloc = ''a.com'', path = ''/img/cat-thumb.jpg'', params = [],
            query = [], fragment = []\<rparr>
   \<and> (\<exists>rest. guess_fullsize_variants rt_cat ''http://a.com/img/cat-thumb.jpg''
                = Inr (''http://a.com/img/cat-thumb.jpg'' # rest)
              \<and> distinct (''http://a.com/img/cat-thumb.jpg'' # rest))
   \<and> extract_image_candidates rt_cat page_cat ''http://a.com/page1''
        = Inr [\<lparr>page_url = ''http://a.com/page1'',
                 urls = [''http://a.com/img/cat-thumb.jpg'', ''http://a.com/img/cat.jpg''],
                 skip_profile = False\<rparr>,
               \<lparr>page_url = ''http://a.com/page1'', urls = [''http://cdn.other.org/x.png''],
                 skip_profile = False\<rparr>]
   \<and> extract_image_candidates rt_cat page_cat ''http://a.com/page1'' \<noteq> Inl IndexError
   \<and> fst (crawl_and_download rt_cat args_one_page) = Inr 0
   \<and> fst (crawl_and_download rt_cat args_one_page) \<noteq> Inl IndexError"
proof -
  have h: "urlparse rt_cat ''http://a.com/img/cat-thumb.jpg''
     = Inr \<lparr>scheme = ''http'', netloc = ''a.com'', path = ''/img/cat-thumb.jpg'', params = [],
            query = [], fragment = []\<rparr>"
    by code_simp
  have ex: "extract_image_candidates rt_cat page_cat ''http://a.com/page1''
        = Inr [\<lparr>page_url = ''http://a.com/page1'',
                 urls = [''http://a.com/img/cat-thumb.jpg'', ''http://a.com/img/cat.jpg''],
                 skip_profile = False\<rparr>,
               \<lparr>page_url = ''http://a.com/page1'', urls = [''http://cdn.other.org/x.png''],
                 skip_profile = False\<rparr>]"
    by code_simp
  have cr: "fst (crawl_and_download rt_cat args_one_page) = Inr 0"
    by code_simp
  from variants_start_with_input_and_candidates_nonempty
         [OF h, of page_cat "''http://a.com/page1''" args_one_page]
       h ex cr
  show ?thesis by blast
qed

end
